theory Spec2Isabelle
  imports Main
begin

section \<open>The relational store declared by the schema\<close>

text \<open>
  The schema file declares seven tables, their column types, their CHECK, UNIQUE and
  PRIMARY KEY constraints, their foreign keys with the action taken when the referenced
  row is deleted, and a list of plain (non-unique) indexes. The store is modelled as a
  record of seven row lists, and every statement that changes it (INSERT, UPDATE of one
  row by its id, DELETE of one row by its id) as a function that returns either the
  error the constraint raises or the new store.

  Column types: \<open>UUID\<close> is a natural number, \<open>TIMESTAMPTZ\<close> an integer number of seconds
  since the epoch, \<open>DATE\<close> an integer number of days since the epoch, \<open>BOOLEAN\<close> a
  \<open>bool\<close>, \<open>TEXT\<close> a string, \<open>VARCHAR(n)\<close> a string that is checked against \<open>n\<close> when
  it is stored, \<open>INTEGER\<close> an integer checked against the 32-bit range, and
  \<open>DECIMAL(10, 2)\<close> an integer number of hundredths checked against ten digits. A
  column declared \<open>NOT NULL\<close> has its plain type, so a null cannot be given for it; a
  nullable column has an \<open>option\<close> type. A column default (\<open>uuid_generate_v4()\<close>,
  \<open>NOW()\<close>, \<open>'active'\<close>, \<open>0\<close>, \<open>TRUE\<close>, \<open>FALSE\<close>) is the value a writer passes when it
  has none of its own: the functions below take the row with every column filled in.
\<close>

type_synonym uuid = nat
type_synonym timestamptz = int
type_synonym date = int
type_synonym decimal_10_2 = int

datatype store_error =
    StringTooLong
  | NumericOutOfRange
  | CheckViolation
  | UniqueViolation
  | ForeignKeyViolation

text \<open>
  \<open>VARCHAR(n)\<close>: a longer string is an error unless the excess characters are all
  spaces, in which case it is truncated to \<open>n\<close> characters.
\<close>

definition varchar_fits :: "nat \<Rightarrow> string \<Rightarrow> bool" where
  "varchar_fits n s = list_all (\<lambda>c. c = CHR '' '') (drop n s)"

definition varchar :: "nat \<Rightarrow> string \<Rightarrow> string" where
  "varchar n s = take n s"

definition integer_fits :: "int \<Rightarrow> bool" where
  "integer_fits v = (- 2147483648 \<le> v \<and> v \<le> 2147483647)"

definition decimal_10_2_fits :: "decimal_10_2 \<Rightarrow> bool" where
  "decimal_10_2_fits v = (- 10000000000 < v \<and> v < 10000000000)"

subsection \<open>Rows\<close>

record users_row =
  users_id :: uuid
  users_email :: string
  users_name :: string
  users_password :: string
  users_role :: string
  users_status :: string
  users_default_project :: "uuid option"
  users_default_task :: "uuid option"
  users_created_at :: timestamptz

record projects_row =
  projects_id :: uuid
  projects_name :: string
  projects_description :: "string option"
  projects_created_by :: uuid
  projects_status :: string
  projects_created_at :: timestamptz

record tasks_row =
  tasks_id :: uuid
  tasks_name :: string
  tasks_description :: "string option"
  tasks_project_id :: uuid
  tasks_status :: string
  tasks_created_at :: timestamptz

record time_entries_row =
  time_entries_id :: uuid
  time_entries_user_id :: uuid
  time_entries_project_id :: uuid
  time_entries_task_id :: uuid
  time_entries_start_time :: timestamptz
  time_entries_end_time :: "timestamptz option"
  time_entries_duration :: int
  time_entries_entry_type :: string
  time_entries_date :: date
  time_entries_notes :: "string option"
  time_entries_created_at :: timestamptz

record timer_sessions_row =
  timer_sessions_id :: uuid
  timer_sessions_user_id :: uuid
  timer_sessions_project_id :: uuid
  timer_sessions_task_id :: uuid
  timer_sessions_start_time :: timestamptz
  timer_sessions_last_heartbeat :: timestamptz
  timer_sessions_is_active :: bool
  timer_sessions_date :: date

record timesheets_row =
  timesheets_id :: uuid
  timesheets_user_id :: uuid
  timesheets_week_start :: date
  timesheets_week_end :: date
  timesheets_total_hours :: decimal_10_2
  timesheets_status :: string
  timesheets_submitted_at :: "timestamptz option"
  timesheets_reviewed_at :: "timestamptz option"
  timesheets_reviewed_by :: "uuid option"
  timesheets_admin_comment :: "string option"
  timesheets_created_at :: timestamptz

record notifications_row =
  notifications_id :: uuid
  notifications_user_id :: uuid
  notifications_type :: string
  notifications_title :: string
  notifications_message :: string
  notifications_read :: bool
  notifications_related_timesheet_id :: "uuid option"
  notifications_created_at :: timestamptz

record db =
  users :: "users_row list"
  projects :: "projects_row list"
  tasks :: "tasks_row list"
  time_entries :: "time_entries_row list"
  timer_sessions :: "timer_sessions_row list"
  timesheets :: "timesheets_row list"
  notifications :: "notifications_row list"

definition empty_db :: db where
  "empty_db = \<lparr>users = [], projects = [], tasks = [], time_entries = [],
     timer_sessions = [], timesheets = [], notifications = []\<rparr>"

subsection \<open>Column values: coercion to the column type, then the CHECK constraints\<close>

text \<open>
  A row is first coerced to the column types (a string that does not fit its
  \<open>VARCHAR\<close>, or a number out of range, is an error), then tested against the CHECK
  constraints of its table. The result is the row as it will be stored.
\<close>

definition users_value :: "users_row \<Rightarrow> store_error + users_row" where
  "users_value r =
     (if \<not> (varchar_fits 255 (users_email r) \<and> varchar_fits 255 (users_name r) \<and>
             varchar_fits 255 (users_password r) \<and> varchar_fits 50 (users_role r) \<and>
             varchar_fits 50 (users_status r))
      then Inl StringTooLong
      else let v = r\<lparr>users_email := varchar 255 (users_email r),
                        users_name := varchar 255 (users_name r),
                        users_password := varchar 255 (users_password r),
                        users_role := varchar 50 (users_role r),
                        users_status := varchar 50 (users_status r)\<rparr>
           in if users_role v \<notin> {''admin'', ''employee''} then Inl CheckViolation
              else if users_status v \<notin> {''active'', ''inactive''} then Inl CheckViolation
              else Inr v)"

definition projects_value :: "projects_row \<Rightarrow> store_error + projects_row" where
  "projects_value r =
     (if \<not> (varchar_fits 255 (projects_name r) \<and> varchar_fits 50 (projects_status r))
      then Inl StringTooLong
      else Inr (r\<lparr>projects_name := varchar 255 (projects_name r),
                   projects_status := varchar 50 (projects_status r)\<rparr>))"

definition tasks_value :: "tasks_row \<Rightarrow> store_error + tasks_row" where
  "tasks_value r =
     (if \<not> (varchar_fits 255 (tasks_name r) \<and> varchar_fits 50 (tasks_status r))
      then Inl StringTooLong
      else Inr (r\<lparr>tasks_name := varchar 255 (tasks_name r),
                   tasks_status := varchar 50 (tasks_status r)\<rparr>))"

definition time_entries_value :: "time_entries_row \<Rightarrow> store_error + time_entries_row" where
  "time_entries_value r =
     (if \<not> varchar_fits 50 (time_entries_entry_type r) then Inl StringTooLong
      else if \<not> integer_fits (time_entries_duration r) then Inl NumericOutOfRange
      else let v = r\<lparr>time_entries_entry_type := varchar 50 (time_entries_entry_type r)\<rparr>
           in if time_entries_entry_type v \<notin> {''timer'', ''manual''} then Inl CheckViolation
              else Inr v)"

definition timer_sessions_value :: "timer_sessions_row \<Rightarrow> store_error + timer_sessions_row" where
  "timer_sessions_value r = Inr r"

definition timesheets_value :: "timesheets_row \<Rightarrow> store_error + timesheets_row" where
  "timesheets_value r =
     (if \<not> varchar_fits 50 (timesheets_status r) then Inl StringTooLong
      else if \<not> decimal_10_2_fits (timesheets_total_hours r) then Inl NumericOutOfRange
      else let v = r\<lparr>timesheets_status := varchar 50 (timesheets_status r)\<rparr>
           in if timesheets_status v \<notin> {''draft'', ''submitted'', ''approved'', ''denied''}
              then Inl CheckViolation
              else Inr v)"

definition notifications_value :: "notifications_row \<Rightarrow> store_error + notifications_row" where
  "notifications_value r =
     (if \<not> (varchar_fits 50 (notifications_type r) \<and> varchar_fits 255 (notifications_title r))
      then Inl StringTooLong
      else let v = r\<lparr>notifications_type := varchar 50 (notifications_type r),
                        notifications_title := varchar 255 (notifications_title r)\<rparr>
           in if notifications_type v \<notin>
                   {''timesheet_submitted'', ''timesheet_approved'', ''timesheet_denied''}
              then Inl CheckViolation
              else Inr v)"

subsection \<open>Keys\<close>

definition has_users :: "db \<Rightarrow> uuid \<Rightarrow> bool" where
  "has_users d i = (i \<in> set (map users_id (users d)))"

definition has_projects :: "db \<Rightarrow> uuid \<Rightarrow> bool" where
  "has_projects d i = (i \<in> set (map projects_id (projects d)))"

definition has_tasks :: "db \<Rightarrow> uuid \<Rightarrow> bool" where
  "has_tasks d i = (i \<in> set (map tasks_id (tasks d)))"

definition has_time_entries :: "db \<Rightarrow> uuid \<Rightarrow> bool" where
  "has_time_entries d i = (i \<in> set (map time_entries_id (time_entries d)))"

definition has_timer_sessions :: "db \<Rightarrow> uuid \<Rightarrow> bool" where
  "has_timer_sessions d i = (i \<in> set (map timer_sessions_id (timer_sessions d)))"

definition has_timesheets :: "db \<Rightarrow> uuid \<Rightarrow> bool" where
  "has_timesheets d i = (i \<in> set (map timesheets_id (timesheets d)))"

definition has_notifications :: "db \<Rightarrow> uuid \<Rightarrow> bool" where
  "has_notifications d i = (i \<in> set (map notifications_id (notifications d)))"

text \<open>A nullable foreign key column holds null or the key of an existing row.\<close>

definition null_or :: "(uuid \<Rightarrow> bool) \<Rightarrow> uuid option \<Rightarrow> bool" where
  "null_or P x = (case x of None \<Rightarrow> True | Some i \<Rightarrow> P i)"

subsection \<open>INSERT\<close>

text \<open>
  An insert coerces and checks the row, then tests the primary key and the UNIQUE
  columns against the rows already stored, then the foreign keys. The only UNIQUE
  column of the schema is \<open>users.email\<close>; the indexes created at the end of the schema
  are plain indexes and reject nothing.
\<close>

definition insert_users :: "db \<Rightarrow> users_row \<Rightarrow> store_error + db" where
  "insert_users d r =
     (case users_value r of
        Inl e \<Rightarrow> Inl e
      | Inr v \<Rightarrow>
          if has_users d (users_id v) then Inl UniqueViolation
          else if users_email v \<in> set (map users_email (users d)) then Inl UniqueViolation
          else Inr (d\<lparr>users := users d @ [v]\<rparr>))"

definition insert_projects :: "db \<Rightarrow> projects_row \<Rightarrow> store_error + db" where
  "insert_projects d r =
     (case projects_value r of
        Inl e \<Rightarrow> Inl e
      | Inr v \<Rightarrow>
          if has_projects d (projects_id v) then Inl UniqueViolation
          else if \<not> has_users d (projects_created_by v) then Inl ForeignKeyViolation
          else Inr (d\<lparr>projects := projects d @ [v]\<rparr>))"

definition insert_tasks :: "db \<Rightarrow> tasks_row \<Rightarrow> store_error + db" where
  "insert_tasks d r =
     (case tasks_value r of
        Inl e \<Rightarrow> Inl e
      | Inr v \<Rightarrow>
          if has_tasks d (tasks_id v) then Inl UniqueViolation
          else if \<not> has_projects d (tasks_project_id v) then Inl ForeignKeyViolation
          else Inr (d\<lparr>tasks := tasks d @ [v]\<rparr>))"

definition insert_time_entries :: "db \<Rightarrow> time_entries_row \<Rightarrow> store_error + db" where
  "insert_time_entries d r =
     (case time_entries_value r of
        Inl e \<Rightarrow> Inl e
      | Inr v \<Rightarrow>
          if has_time_entries d (time_entries_id v) then Inl UniqueViolation
          else if \<not> (has_users d (time_entries_user_id v) \<and>
                     has_projects d (time_entries_project_id v) \<and>
                     has_tasks d (time_entries_task_id v))
          then Inl ForeignKeyViolation
          else Inr (d\<lparr>time_entries := time_entries d @ [v]\<rparr>))"

definition insert_timer_sessions :: "db \<Rightarrow> timer_sessions_row \<Rightarrow> store_error + db" where
  "insert_timer_sessions d r =
     (case timer_sessions_value r of
        Inl e \<Rightarrow> Inl e
      | Inr v \<Rightarrow>
          if has_timer_sessions d (timer_sessions_id v) then Inl UniqueViolation
          else if \<not> (has_users d (timer_sessions_user_id v) \<and>
                     has_projects d (timer_sessions_project_id v) \<and>
                     has_tasks d (timer_sessions_task_id v))
          then Inl ForeignKeyViolation
          else Inr (d\<lparr>timer_sessions := timer_sessions d @ [v]\<rparr>))"

definition insert_timesheets :: "db \<Rightarrow> timesheets_row \<Rightarrow> store_error + db" where
  "insert_timesheets d r =
     (case timesheets_value r of
        Inl e \<Rightarrow> Inl e
      | Inr v \<Rightarrow>
          if has_timesheets d (timesheets_id v) then Inl UniqueViolation
          else if \<not> (has_users d (timesheets_user_id v) \<and>
                     null_or (has_users d) (timesheets_reviewed_by v))
          then Inl ForeignKeyViolation
          else Inr (d\<lparr>timesheets := timesheets d @ [v]\<rparr>))"

definition insert_notifications :: "db \<Rightarrow> notifications_row \<Rightarrow> store_error + db" where
  "insert_notifications d r =
     (case notifications_value r of
        Inl e \<Rightarrow> Inl e
      | Inr v \<Rightarrow>
          if has_notifications d (notifications_id v) then Inl UniqueViolation
          else if \<not> (has_users d (notifications_user_id v) \<and>
                     null_or (has_timesheets d) (notifications_related_timesheet_id v))
          then Inl ForeignKeyViolation
          else Inr (d\<lparr>notifications := notifications d @ [v]\<rparr>))"

subsection \<open>UPDATE of the row with a given id\<close>

text \<open>
  An update replaces the columns of the row whose primary key is \<open>i\<close> by those of \<open>r\<close>
  (the key itself stays), under the same coercions and constraints as an insert. When
  no row has the key, nothing is updated and the statement succeeds.
\<close>

definition update_users :: "db \<Rightarrow> uuid \<Rightarrow> users_row \<Rightarrow> store_error + db" where
  "update_users d i r =
     (if \<not> has_users d i then Inr d
      else case users_value (r\<lparr>users_id := i\<rparr>) of
        Inl e \<Rightarrow> Inl e
      | Inr v \<Rightarrow>
          if users_email v \<in> set (map users_email (filter (\<lambda>x. users_id x \<noteq> i) (users d)))
          then Inl UniqueViolation
          else Inr (d\<lparr>users := map (\<lambda>x. if users_id x = i then v else x) (users d)\<rparr>))"

definition update_projects :: "db \<Rightarrow> uuid \<Rightarrow> projects_row \<Rightarrow> store_error + db" where
  "update_projects d i r =
     (if \<not> has_projects d i then Inr d
      else case projects_value (r\<lparr>projects_id := i\<rparr>) of
        Inl e \<Rightarrow> Inl e
      | Inr v \<Rightarrow>
          if \<not> has_users d (projects_created_by v) then Inl ForeignKeyViolation
          else Inr (d\<lparr>projects := map (\<lambda>x. if projects_id x = i then v else x) (projects d)\<rparr>))"

definition update_tasks :: "db \<Rightarrow> uuid \<Rightarrow> tasks_row \<Rightarrow> store_error + db" where
  "update_tasks d i r =
     (if \<not> has_tasks d i then Inr d
      else case tasks_value (r\<lparr>tasks_id := i\<rparr>) of
        Inl e \<Rightarrow> Inl e
      | Inr v \<Rightarrow>
          if \<not> has_projects d (tasks_project_id v) then Inl ForeignKeyViolation
          else Inr (d\<lparr>tasks := map (\<lambda>x. if tasks_id x = i then v else x) (tasks d)\<rparr>))"

definition update_time_entries :: "db \<Rightarrow> uuid \<Rightarrow> time_entries_row \<Rightarrow> store_error + db" where
  "update_time_entries d i r =
     (if \<not> has_time_entries d i then Inr d
      else case time_entries_value (r\<lparr>time_entries_id := i\<rparr>) of
        Inl e \<Rightarrow> Inl e
      | Inr v \<Rightarrow>
          if \<not> (has_users d (time_entries_user_id v) \<and>
                has_projects d (time_entries_project_id v) \<and>
                has_tasks d (time_entries_task_id v))
          then Inl ForeignKeyViolation
          else Inr (d\<lparr>time_entries :=
                 map (\<lambda>x. if time_entries_id x = i then v else x) (time_entries d)\<rparr>))"

definition update_timer_sessions :: "db \<Rightarrow> uuid \<Rightarrow> timer_sessions_row \<Rightarrow> store_error + db" where
  "update_timer_sessions d i r =
     (if \<not> has_timer_sessions d i then Inr d
      else case timer_sessions_value (r\<lparr>timer_sessions_id := i\<rparr>) of
        Inl e \<Rightarrow> Inl e
      | Inr v \<Rightarrow>
          if \<not> (has_users d (timer_sessions_user_id v) \<and>
                has_projects d (timer_sessions_project_id v) \<and>
                has_tasks d (timer_sessions_task_id v))
          then Inl ForeignKeyViolation
          else Inr (d\<lparr>timer_sessions :=
                 map (\<lambda>x. if timer_sessions_id x = i then v else x) (timer_sessions d)\<rparr>))"

definition update_timesheets :: "db \<Rightarrow> uuid \<Rightarrow> timesheets_row \<Rightarrow> store_error + db" where
  "update_timesheets d i r =
     (if \<not> has_timesheets d i then Inr d
      else case timesheets_value (r\<lparr>timesheets_id := i\<rparr>) of
        Inl e \<Rightarrow> Inl e
      | Inr v \<Rightarrow>
          if \<not> (has_users d (timesheets_user_id v) \<and>
                null_or (has_users d) (timesheets_reviewed_by v))
          then Inl ForeignKeyViolation
          else Inr (d\<lparr>timesheets :=
                 map (\<lambda>x. if timesheets_id x = i then v else x) (timesheets d)\<rparr>))"

definition update_notifications :: "db \<Rightarrow> uuid \<Rightarrow> notifications_row \<Rightarrow> store_error + db" where
  "update_notifications d i r =
     (if \<not> has_notifications d i then Inr d
      else case notifications_value (r\<lparr>notifications_id := i\<rparr>) of
        Inl e \<Rightarrow> Inl e
      | Inr v \<Rightarrow>
          if \<not> (has_users d (notifications_user_id v) \<and>
                null_or (has_timesheets d) (notifications_related_timesheet_id v))
          then Inl ForeignKeyViolation
          else Inr (d\<lparr>notifications :=
                 map (\<lambda>x. if notifications_id x = i then v else x) (notifications d)\<rparr>))"

subsection \<open>DELETE of the row with a given id\<close>

text \<open>
  When no row has the key, nothing is deleted and the statement succeeds. Otherwise the
  foreign keys that reference the deleted row act as the schema declares them:
  \<open>ON DELETE CASCADE\<close> deletes the referencing rows (and what references those in turn),
  \<open>ON DELETE SET NULL\<close> nulls the referencing column, and a foreign key with no action
  raises an error, tested once the cascades are done, when a referencing row is left.
  A statement that raises an error changes nothing.
\<close>

definition null_related :: "uuid list \<Rightarrow> notifications_row \<Rightarrow> notifications_row" where
  "null_related gone n =
     (case notifications_related_timesheet_id n of
        None \<Rightarrow> n
      | Some t \<Rightarrow> if t \<in> set gone then n\<lparr>notifications_related_timesheet_id := None\<rparr> else n)"

definition delete_users :: "db \<Rightarrow> uuid \<Rightarrow> store_error + db" where
  "delete_users d u =
     (if \<not> has_users d u then Inr d
      else let gone = map timesheets_id (filter (\<lambda>t. timesheets_user_id t = u) (timesheets d));
               kept = filter (\<lambda>t. timesheets_user_id t \<noteq> u) (timesheets d)
           in if u \<in> set (map projects_created_by (projects d)) then Inl ForeignKeyViolation
              else if Some u \<in> set (map timesheets_reviewed_by kept) then Inl ForeignKeyViolation
              else Inr (d\<lparr>users := filter (\<lambda>x. users_id x \<noteq> u) (users d),
                          time_entries :=
                            filter (\<lambda>e. time_entries_user_id e \<noteq> u) (time_entries d),
                          timer_sessions :=
                            filter (\<lambda>s. timer_sessions_user_id s \<noteq> u) (timer_sessions d),
                          timesheets := kept,
                          notifications :=
                            map (null_related gone)
                              (filter (\<lambda>n. notifications_user_id n \<noteq> u) (notifications d))\<rparr>))"

definition delete_projects :: "db \<Rightarrow> uuid \<Rightarrow> store_error + db" where
  "delete_projects d p =
     (if \<not> has_projects d p then Inr d
      else let gone = map tasks_id (filter (\<lambda>t. tasks_project_id t = p) (tasks d))
           in if p \<in> set (map time_entries_project_id (time_entries d)) then Inl ForeignKeyViolation
              else if p \<in> set (map timer_sessions_project_id (timer_sessions d))
              then Inl ForeignKeyViolation
              else if \<exists>t \<in> set gone. t \<in> set (map time_entries_task_id (time_entries d))
              then Inl ForeignKeyViolation
              else if \<exists>t \<in> set gone. t \<in> set (map timer_sessions_task_id (timer_sessions d))
              then Inl ForeignKeyViolation
              else Inr (d\<lparr>projects := filter (\<lambda>x. projects_id x \<noteq> p) (projects d),
                          tasks := filter (\<lambda>t. tasks_project_id t \<noteq> p) (tasks d)\<rparr>))"

definition delete_tasks :: "db \<Rightarrow> uuid \<Rightarrow> store_error + db" where
  "delete_tasks d t =
     (if \<not> has_tasks d t then Inr d
      else if t \<in> set (map time_entries_task_id (time_entries d)) then Inl ForeignKeyViolation
      else if t \<in> set (map timer_sessions_task_id (timer_sessions d)) then Inl ForeignKeyViolation
      else Inr (d\<lparr>tasks := filter (\<lambda>x. tasks_id x \<noteq> t) (tasks d)\<rparr>))"

definition delete_time_entries :: "db \<Rightarrow> uuid \<Rightarrow> store_error + db" where
  "delete_time_entries d i =
     Inr (d\<lparr>time_entries := filter (\<lambda>x. time_entries_id x \<noteq> i) (time_entries d)\<rparr>)"

definition delete_timer_sessions :: "db \<Rightarrow> uuid \<Rightarrow> store_error + db" where
  "delete_timer_sessions d i =
     Inr (d\<lparr>timer_sessions := filter (\<lambda>x. timer_sessions_id x \<noteq> i) (timer_sessions d)\<rparr>)"

definition delete_timesheets :: "db \<Rightarrow> uuid \<Rightarrow> store_error + db" where
  "delete_timesheets d t =
     (if \<not> has_timesheets d t then Inr d
      else Inr (d\<lparr>timesheets := filter (\<lambda>x. timesheets_id x \<noteq> t) (timesheets d),
                  notifications := map (null_related [t]) (notifications d)\<rparr>))"

definition delete_notifications :: "db \<Rightarrow> uuid \<Rightarrow> store_error + db" where
  "delete_notifications d i =
     Inr (d\<lparr>notifications := filter (\<lambda>x. notifications_id x \<noteq> i) (notifications d)\<rparr>)"

subsection \<open>Statements and the seeded store\<close>

datatype statement =
    InsertUsers users_row
  | InsertProjects projects_row
  | InsertTasks tasks_row
  | InsertTimeEntries time_entries_row
  | InsertTimerSessions timer_sessions_row
  | InsertTimesheets timesheets_row
  | InsertNotifications notifications_row
  | UpdateUsers uuid users_row
  | UpdateProjects uuid projects_row
  | UpdateTasks uuid tasks_row
  | UpdateTimeEntries uuid time_entries_row
  | UpdateTimerSessions uuid timer_sessions_row
  | UpdateTimesheets uuid timesheets_row
  | UpdateNotifications uuid notifications_row
  | DeleteUsers uuid
  | DeleteProjects uuid
  | DeleteTasks uuid
  | DeleteTimeEntries uuid
  | DeleteTimerSessions uuid
  | DeleteTimesheets uuid
  | DeleteNotifications uuid

fun execute :: "db \<Rightarrow> statement \<Rightarrow> store_error + db" where
  "execute d (InsertUsers r) = insert_users d r"
| "execute d (InsertProjects r) = insert_projects d r"
| "execute d (InsertTasks r) = insert_tasks d r"
| "execute d (InsertTimeEntries r) = insert_time_entries d r"
| "execute d (InsertTimerSessions r) = insert_timer_sessions d r"
| "execute d (InsertTimesheets r) = insert_timesheets d r"
| "execute d (InsertNotifications r) = insert_notifications d r"
| "execute d (UpdateUsers i r) = update_users d i r"
| "execute d (UpdateProjects i r) = update_projects d i r"
| "execute d (UpdateTasks i r) = update_tasks d i r"
| "execute d (UpdateTimeEntries i r) = update_time_entries d i r"
| "execute d (UpdateTimerSessions i r) = update_timer_sessions d i r"
| "execute d (UpdateTimesheets i r) = update_timesheets d i r"
| "execute d (UpdateNotifications i r) = update_notifications d i r"
| "execute d (DeleteUsers i) = delete_users d i"
| "execute d (DeleteProjects i) = delete_projects d i"
| "execute d (DeleteTasks i) = delete_tasks d i"
| "execute d (DeleteTimeEntries i) = delete_time_entries d i"
| "execute d (DeleteTimerSessions i) = delete_timer_sessions d i"
| "execute d (DeleteTimesheets i) = delete_timesheets d i"
| "execute d (DeleteNotifications i) = delete_notifications d i"

text \<open>A script is run statement by statement; a statement that fails leaves the store as it was.\<close>

definition attempt :: "db \<Rightarrow> statement \<Rightarrow> db" where
  "attempt d s = (case execute d s of Inl e \<Rightarrow> d | Inr d' \<Rightarrow> d')"

definition run :: "db \<Rightarrow> statement list \<Rightarrow> db" where
  "run d ss = foldl attempt d ss"

text \<open>
  The schema ends with two inserts into \<open>users\<close>. Their ids come from
  \<open>uuid_generate_v4()\<close> and their \<open>created_at\<close> from \<open>NOW()\<close>, taken here as parameters;
  \<open>status\<close> is written out, and the two default columns are left null.
\<close>

definition default_admin :: "uuid \<Rightarrow> timestamptz \<Rightarrow> users_row" where
  "default_admin i now =
     \<lparr>users_id = i, users_email = ''admin@omnigratum.com'', users_name = ''Admin User'',
      users_password = ''$2b$12$LQv3c1yqBWVHxkd0LHAkCOYz6TtxMQJqhN8/LewY5oCvJ9J9pU8Kq'',
      users_role = ''admin'', users_status = ''active'', users_default_project = None,
      users_default_task = None, users_created_at = now\<rparr>"

definition default_employee :: "uuid \<Rightarrow> timestamptz \<Rightarrow> users_row" where
  "default_employee i now =
     \<lparr>users_id = i, users_email = ''employee@omnigratum.com'', users_name = ''John Employee'',
      users_password = ''$2b$12$8K1p/FwT/fWqJfMZJKLlZu5h3XQFm9bPjTJQHhJlNyJ1JVKJ1ZFQS'',
      users_role = ''employee'', users_status = ''active'', users_default_project = None,
      users_default_task = None, users_created_at = now\<rparr>"

definition schema_db :: "uuid \<Rightarrow> uuid \<Rightarrow> timestamptz \<Rightarrow> db" where
  "schema_db a e now =
     run empty_db [InsertUsers (default_admin a now), InsertUsers (default_employee e now)]"

section \<open>The login page\<close>

text \<open>
  \<open>LoginPage\<close> keeps three pieces of state (\<open>email\<close>, \<open>password\<close>, \<open>loading\<close>) and
  renders a form whose submit button is disabled while \<open>loading\<close> holds. Its handler
  \<open>handleSubmit\<close> is asynchronous: it runs up to \<open>await login(email, password)\<close>, and
  resumes when the promise settles. The two halves are separate functions here, and the
  calls the handler makes on its collaborators (\<open>e.preventDefault\<close>, \<open>setLoading\<close>,
  \<open>login\<close>, \<open>toast\<close>, \<open>navigate\<close>) are returned in the order made.

  \<open>login\<close> comes from \<open>useAuth\<close> and is a parameter of the page, so the value its
  promise settles with is any JavaScript value. Numbers are the integers and \<open>NaN\<close>,
  which is all the one test made on the value (\<open>if (result.success)\<close>) distinguishes.
\<close>

datatype jsval =
    JUndefined
  | JNull
  | JBool bool
  | JNum int
  | JNaN
  | JStr string
  | JObj "(string \<times> jsval) list"

datatype thrown = TypeError | Thrown jsval

text \<open>The truth test of \<open>if (v)\<close>.\<close>

fun to_boolean :: "jsval \<Rightarrow> bool" where
  "to_boolean JUndefined = False"
| "to_boolean JNull = False"
| "to_boolean (JBool b) = b"
| "to_boolean (JNum n) = (n \<noteq> 0)"
| "to_boolean JNaN = False"
| "to_boolean (JStr s) = (s \<noteq> [])"
| "to_boolean (JObj kvs) = True"

text \<open>
  Property access \<open>v.name\<close>: a TypeError on \<open>undefined\<close> and \<open>null\<close>, the property's
  value on an object that has it, and \<open>undefined\<close> otherwise.
\<close>

fun get_property :: "jsval \<Rightarrow> string \<Rightarrow> thrown + jsval" where
  "get_property JUndefined name = Inl TypeError"
| "get_property JNull name = Inl TypeError"
| "get_property (JObj kvs) name =
     (case map_of kvs name of None \<Rightarrow> Inr JUndefined | Some v \<Rightarrow> Inr v)"
| "get_property v name = Inr JUndefined"

datatype call =
    PreventDefault
  | SetLoading bool
  | Login string string
  | ToastSuccess string
  | ToastError jsval
  | Navigate string

datatype settled = Fulfilled jsval | Rejected jsval

record login_page =
  email :: string
  password :: string
  loading :: bool

text \<open>\<open>handleSubmit\<close> up to the \<open>await\<close>: the calls made, and the state they leave.\<close>

definition handleSubmit_begin :: "login_page \<Rightarrow> login_page \<times> call list" where
  "handleSubmit_begin st =
     (st\<lparr>loading := True\<rparr>, [PreventDefault, SetLoading True, Login (email st) (password st)])"

text \<open>
  \<open>handleSubmit\<close> from the \<open>await\<close> on. A rejected promise is rethrown by \<open>await\<close>, so
  nothing after it runs. The third component is what the handler throws, if it does.
\<close>

definition handleSubmit_resume ::
  "login_page \<Rightarrow> settled \<Rightarrow> login_page \<times> call list \<times> thrown option" where
  "handleSubmit_resume st r =
     (case r of
        Rejected e \<Rightarrow> (st, [], Some (Thrown e))
      | Fulfilled result \<Rightarrow>
          (case get_property result ''success'' of
             Inl t \<Rightarrow> (st\<lparr>loading := False\<rparr>, [SetLoading False], Some t)
           | Inr success \<Rightarrow>
               if to_boolean success
               then (st\<lparr>loading := False\<rparr>,
                     [SetLoading False, ToastSuccess ''Login successful!'',
                      Navigate ''/dashboard''], None)
               else (st\<lparr>loading := False\<rparr>,
                     [SetLoading False,
                      ToastError (case get_property result ''error'' of
                                    Inl t \<Rightarrow> JUndefined | Inr v \<Rightarrow> v)], None)))"

text \<open>
  What the browser checks before it lets the user submit the form. Both fields are
  \<open>required\<close>, so neither may be empty, and the first is of type \<open>email\<close>, so its value
  must be a valid e-mail address of the HTML standard: one or more characters out of
  letters, digits and the punctuation listed in \<open>atext\<close>, then \<open>@\<close>, then labels
  separated by dots, each of 1 to 63 letters, digits and hyphens that begins and ends
  with a letter or digit.
\<close>

definition alnum :: "char \<Rightarrow> bool" where
  "alnum c = (c \<in> set ''abcdefghijklmnopqrstuvwxyzABCDEFGHIJKLMNOPQRSTUVWXYZ0123456789'')"

definition atext :: "char \<Rightarrow> bool" where
  "atext c = (alnum c \<or> c \<in> set ''.!#$%&*+/=?^_{|}~-'' \<or> c = CHR 0x27 \<or> c = CHR 0x60)"

fun labels :: "string \<Rightarrow> string list" where
  "labels [] = [[]]"
| "labels (c # cs) =
     (if c = CHR ''.'' then [] # labels cs
      else case labels cs of [] \<Rightarrow> [[c]] | l # ls \<Rightarrow> (c # l) # ls)"

definition valid_label :: "string \<Rightarrow> bool" where
  "valid_label l =
     (l \<noteq> [] \<and> length l \<le> 63 \<and> alnum (hd l) \<and> alnum (last l) \<and>
      list_all (\<lambda>c. alnum c \<or> c = CHR ''-'') l)"

definition valid_email :: "string \<Rightarrow> bool" where
  "valid_email s =
     (case dropWhile (\<lambda>c. c \<noteq> CHR ''@'') s of
        [] \<Rightarrow> False
      | at # domain \<Rightarrow>
          takeWhile (\<lambda>c. c \<noteq> CHR ''@'') s \<noteq> [] \<and>
          list_all atext (takeWhile (\<lambda>c. c \<noteq> CHR ''@'') s) \<and>
          list_all valid_label (labels domain))"

text \<open>
  The page over time. \<open>pending\<close> counts the \<open>login\<close> calls that have not settled, and
  \<open>calls\<close> is the log of all calls made. Four things happen to the page:
  \<^item> the user edits a field (\<open>onChange\<close>);
  \<^item> the user submits through the submit button, by a click or by the Enter key in a
    field: the browser does nothing while the button is disabled (\<open>disabled={loading}\<close>)
    or a field is invalid, and otherwise fires the submit event, which runs
    \<open>handleSubmit\<close>;
  \<^item> a submit event reaches the form without the button (a script dispatches it):
    \<open>handleSubmit\<close> runs, since it has no test of \<open>loading\<close> of its own;
  \<^item> a pending \<open>login\<close> settles and \<open>handleSubmit\<close> resumes.
\<close>

record page = login_page +
  pending :: nat
  calls :: "call list"

datatype event =
    ChangeEmail string
  | ChangePassword string
  | ClickSubmit
  | DispatchSubmit
  | LoginSettles settled

definition submit_disabled :: "page \<Rightarrow> bool" where
  "submit_disabled p = loading p"

definition fields_valid :: "page \<Rightarrow> bool" where
  "fields_valid p = (email p \<noteq> [] \<and> valid_email (email p) \<and> password p \<noteq> [])"

definition initial_page :: page where
  "initial_page = \<lparr>email = [], password = [], loading = False, pending = 0, calls = []\<rparr>"

text \<open>The submit event: \<open>handleSubmit\<close> runs up to its \<open>await\<close>.\<close>

definition on_submit :: "page \<Rightarrow> page" where
  "on_submit p =
     (case handleSubmit_begin (login_page.truncate p) of
        (st, cs) \<Rightarrow> p\<lparr>loading := loading st, pending := pending p + 1, calls := calls p @ cs\<rparr>)"

fun step :: "page \<Rightarrow> event \<Rightarrow> page option" where
  "step p (ChangeEmail s) = Some (p\<lparr>email := s\<rparr>)"
| "step p (ChangePassword s) = Some (p\<lparr>password := s\<rparr>)"
| "step p ClickSubmit =
     (if submit_disabled p \<or> \<not> fields_valid p then Some p else Some (on_submit p))"
| "step p DispatchSubmit = Some (on_submit p)"
| "step p (LoginSettles r) =
     (if pending p = 0 then None
      else case handleSubmit_resume (login_page.truncate p) r of
        (st, cs, t) \<Rightarrow>
          Some (p\<lparr>loading := loading st, pending := pending p - 1, calls := calls p @ cs\<rparr>))"

fun steps :: "page \<Rightarrow> event list \<Rightarrow> page option" where
  "steps p [] = Some p"
| "steps p (e # es) = (case step p e of None \<Rightarrow> None | Some p' \<Rightarrow> steps p' es)"

section \<open>The timer, time-entry and timesheet core\<close>

text \<open>
  The operations that write timer sessions, time entries and timesheets live in the
  backend server, which is not among the source files; only the tables they write are.
  Each definition of this section is therefore written from the specification
  (sections 4.1 to 4.5 and 7) and runs against the store of the previous section. An
  id that the store would draw from \<open>uuid_generate_v4()\<close> is an argument, \<open>now\<close> is the
  clock reading the specification passes, and a timestamp counts seconds, the unit of
  the specification's examples.
\<close>

text \<open>
  Modelled from the spec: the error kinds of section 7. The backend's error type is
  missing. An error raised by the store is handed to the caller as \<open>StoreFailure\<close>.
\<close>

datatype core_error =
    ValidationError
  | ConflictError
  | NotFoundError
  | AuthorizationError
  | TransientError
  | StoreFailure store_error

text \<open>
  Modelled from the spec: running a store statement inside a core operation; the
  backend's store access is missing. Errors are returned to the immediate caller.
\<close>

definition stored :: "store_error + db \<Rightarrow> core_error + db" where
  "stored r = (case r of Inl e \<Rightarrow> Inl (StoreFailure e) | Inr d \<Rightarrow> Inr d)"

text \<open>
  Modelled from the spec: the session's calendar date, "fixed to UTC date" (section 3);
  the backend's date computation is missing.
\<close>

definition utc_date :: "timestamptz \<Rightarrow> date" where
  "utc_date t = t div 86400"

subsection \<open>TimerSessionManager and HeartbeatReaper\<close>

text \<open>
  Modelled from the spec: \<open>getActive(user)\<close> of section 4.1, "returns the active session
  or null"; the backend function is missing.
\<close>

definition getActive :: "db \<Rightarrow> uuid \<Rightarrow> timer_sessions_row option" where
  "getActive d user =
     find (\<lambda>s. timer_sessions_user_id s = user \<and> timer_sessions_is_active s) (timer_sessions d)"

text \<open>
  Modelled from the spec: \<open>start(user, project, task, now)\<close> of section 4.1, "fails with
  ConflictError if an active session already exists for user. Otherwise atomically
  creates a TimerSession with start_time = last_heartbeat = now, is_active = true,
  date = now.date()"; the backend function is missing.
\<close>

definition start :: "db \<Rightarrow> uuid \<Rightarrow> uuid \<Rightarrow> uuid \<Rightarrow> uuid \<Rightarrow> timestamptz \<Rightarrow> core_error + db" where
  "start d new_id user project task now =
     (case getActive d user of
        Some s \<Rightarrow> Inl ConflictError
      | None \<Rightarrow>
          stored (insert_timer_sessions d
            \<lparr>timer_sessions_id = new_id, timer_sessions_user_id = user,
             timer_sessions_project_id = project, timer_sessions_task_id = task,
             timer_sessions_start_time = now, timer_sessions_last_heartbeat = now,
             timer_sessions_is_active = True, timer_sessions_date = utc_date now\<rparr>))"

text \<open>
  Modelled from the spec: \<open>heartbeat(user, now)\<close> of section 4.1, "fails with
  NotFoundError if no active session exists for user. Otherwise sets last_heartbeat =
  now"; the backend function is missing.
\<close>

definition heartbeat :: "db \<Rightarrow> uuid \<Rightarrow> timestamptz \<Rightarrow> core_error + db" where
  "heartbeat d user now =
     (case getActive d user of
        None \<Rightarrow> Inl NotFoundError
      | Some s \<Rightarrow>
          stored (update_timer_sessions d (timer_sessions_id s)
            (s\<lparr>timer_sessions_last_heartbeat := now\<rparr>)))"

text \<open>
  Modelled from the spec: \<open>recordFromSession(session, end_time)\<close> of section 4.3,
  "constructs the TimeEntry as described in section 3, duration = end_time - start_time
  in whole seconds", with \<open>entry_type = timer\<close>; the backend function is missing. The
  entry takes the session's date and has no notes.
\<close>

definition recordFromSession ::
  "db \<Rightarrow> uuid \<Rightarrow> timer_sessions_row \<Rightarrow> timestamptz \<Rightarrow> timestamptz \<Rightarrow> core_error + db" where
  "recordFromSession d new_id session end_time now =
     stored (insert_time_entries d
       \<lparr>time_entries_id = new_id,
        time_entries_user_id = timer_sessions_user_id session,
        time_entries_project_id = timer_sessions_project_id session,
        time_entries_task_id = timer_sessions_task_id session,
        time_entries_start_time = timer_sessions_start_time session,
        time_entries_end_time = Some end_time,
        time_entries_duration = end_time - timer_sessions_start_time session,
        time_entries_entry_type = ''timer'',
        time_entries_date = timer_sessions_date session,
        time_entries_notes = None,
        time_entries_created_at = now\<rparr>)"

text \<open>
  Modelled from the spec: the termination shared by \<open>stop\<close> and the reaper (sections
  4.1, 4.2 and 9: "a single code path for session termination regardless of trigger"),
  "marks the session inactive, and delegates to TimeEntryRecorder to produce a
  TimeEntry", and "if now < session.start_time (clock skew), clamp end_time =
  start_time"; the backend function is missing. When the store refuses the entry the
  whole operation fails and nothing is changed.
\<close>

definition terminate ::
  "db \<Rightarrow> uuid \<Rightarrow> timer_sessions_row \<Rightarrow> timestamptz \<Rightarrow> timestamptz \<Rightarrow> core_error + db" where
  "terminate d new_id session t now =
     (let end_time = (if t < timer_sessions_start_time session
                      then timer_sessions_start_time session else t)
      in case stored (update_timer_sessions d (timer_sessions_id session)
                        (session\<lparr>timer_sessions_is_active := False\<rparr>)) of
           Inl e \<Rightarrow> Inl e
         | Inr d1 \<Rightarrow> recordFromSession d1 new_id session end_time now)"

text \<open>
  Modelled from the spec: \<open>stop(user, now)\<close> of section 4.1, "fails with NotFoundError
  if no active session exists", otherwise the termination with \<open>end_time = now\<close>; the
  backend function is missing.
\<close>

definition stop :: "db \<Rightarrow> uuid \<Rightarrow> uuid \<Rightarrow> timestamptz \<Rightarrow> core_error + db" where
  "stop d new_id user now =
     (case getActive d user of
        None \<Rightarrow> Inl NotFoundError
      | Some s \<Rightarrow> terminate d new_id s now now)"

text \<open>
  Modelled from the spec: the sessions the reaper takes (section 4.2), those "with
  is_active = true and now - last_heartbeat > staleness_threshold"; the backend task is
  missing.
\<close>

definition stale :: "timestamptz \<Rightarrow> int \<Rightarrow> timer_sessions_row \<Rightarrow> bool" where
  "stale now threshold s =
     (timer_sessions_is_active s \<and> now - timer_sessions_last_heartbeat s > threshold)"

text \<open>
  Modelled from the spec: what the reaper does with each such session (section 4.2), "it
  performs the same termination as stop, using end_time = last_heartbeat (not now)";
  the backend task is missing. \<open>new_id\<close> gives the id of the entry made for a session,
  and an error ends the sweep and is returned.
\<close>

fun reap_each :: "db \<Rightarrow> (uuid \<Rightarrow> uuid) \<Rightarrow> timer_sessions_row list \<Rightarrow> timestamptz \<Rightarrow> core_error + db" where
  "reap_each d new_id [] now = Inr d"
| "reap_each d new_id (s # ss) now =
     (case terminate d (new_id (timer_sessions_id s)) s (timer_sessions_last_heartbeat s) now of
        Inl e \<Rightarrow> Inl e
      | Inr d' \<Rightarrow> reap_each d' new_id ss now)"

text \<open>
  Modelled from the spec: the reaper's sweep of section 4.2 over "every TimerSession"
  that is stale at \<open>now\<close>; the backend task is missing.
\<close>

definition reap :: "db \<Rightarrow> (uuid \<Rightarrow> uuid) \<Rightarrow> timestamptz \<Rightarrow> int \<Rightarrow> core_error + db" where
  "reap d new_id now threshold =
     reap_each d new_id (filter (stale now threshold) (timer_sessions d)) now"

subsection \<open>TimeEntryRecorder\<close>

text \<open>
  Modelled from the spec: \<open>recordManual(user, project, task, start_time, end_time,
  notes)\<close> of section 4.3, "fails with ValidationError if end_time < start_time, if
  project/task are inactive, or if task.project_id != project.id. Produces an entry_type
  = manual TimeEntry", with the duration of section 3; the backend function is missing.
  The entry's date is the UTC date of its start.
\<close>

definition recordManual ::
  "db \<Rightarrow> uuid \<Rightarrow> uuid \<Rightarrow> projects_row \<Rightarrow> tasks_row \<Rightarrow> timestamptz \<Rightarrow> timestamptz \<Rightarrow>
     string option \<Rightarrow> timestamptz \<Rightarrow> core_error + db" where
  "recordManual d new_id user project task start_time end_time notes now =
     (if end_time < start_time \<or> projects_status project \<noteq> ''active'' \<or>
         tasks_status task \<noteq> ''active'' \<or> tasks_project_id task \<noteq> projects_id project
      then Inl ValidationError
      else stored (insert_time_entries d
             \<lparr>time_entries_id = new_id,
              time_entries_user_id = user,
              time_entries_project_id = projects_id project,
              time_entries_task_id = tasks_id task,
              time_entries_start_time = start_time,
              time_entries_end_time = Some end_time,
              time_entries_duration = end_time - start_time,
              time_entries_entry_type = ''manual'',
              time_entries_date = utc_date start_time,
              time_entries_notes = notes,
              time_entries_created_at = now\<rparr>))"

subsection \<open>TimesheetAggregator\<close>

text \<open>
  Modelled from the spec: the seconds of a week (section 4.4), summed over "all
  TimeEntries of that user whose date falls in [week_start, week_end]"; the backend
  function is missing.
\<close>

definition week_seconds :: "db \<Rightarrow> uuid \<Rightarrow> date \<Rightarrow> date \<Rightarrow> int" where
  "week_seconds d user week_start week_end =
     sum_list (map time_entries_duration
       (filter (\<lambda>e. time_entries_user_id e = user \<and> week_start \<le> time_entries_date e \<and>
                     time_entries_date e \<le> week_end) (time_entries d)))"

text \<open>
  Modelled from the spec: \<open>total_hours\<close> of section 3, "decimal hours =
  sum(duration)/3600, rounded to 2 decimals"; the backend function is missing. The
  value is in hundredths of an hour, and a half rounds up.
\<close>

definition total_hours :: "int \<Rightarrow> decimal_10_2" where
  "total_hours seconds = (seconds + 18) div 36"

text \<open>
  Modelled from the spec: \<open>recompute(timesheet)\<close> of section 4.4, "re-sums durations
  for entries in-window; no-op unless timesheet.status == draft"; the backend function
  is missing.
\<close>

definition recompute :: "db \<Rightarrow> timesheets_row \<Rightarrow> core_error + db" where
  "recompute d ts =
     (if timesheets_status ts \<noteq> ''draft'' then Inr d
      else stored (update_timesheets d (timesheets_id ts)
             (ts\<lparr>timesheets_total_hours :=
                   total_hours (week_seconds d (timesheets_user_id ts)
                     (timesheets_week_start ts) (timesheets_week_end ts))\<rparr>)))"

text \<open>
  Modelled from the spec: \<open>ensureDraft(user, week_start)\<close> of section 4.4, "computes
  week_end = week_start + 6 days; if no Timesheet exists for (user, week_start), creates
  one in draft status with total_hours computed"; "if a draft already exists,
  recomputes total_hours from current entries", and a timesheet in another status is
  left as it is; the backend function is missing.
\<close>

definition ensureDraft :: "db \<Rightarrow> uuid \<Rightarrow> uuid \<Rightarrow> date \<Rightarrow> timestamptz \<Rightarrow> core_error + db" where
  "ensureDraft d new_id user week_start now =
     (let week_end = week_start + 6
      in case find (\<lambda>t. timesheets_user_id t = user \<and> timesheets_week_start t = week_start)
                (timesheets d) of
           None \<Rightarrow>
             stored (insert_timesheets d
               \<lparr>timesheets_id = new_id, timesheets_user_id = user,
                timesheets_week_start = week_start, timesheets_week_end = week_end,
                timesheets_total_hours = total_hours (week_seconds d user week_start week_end),
                timesheets_status = ''draft'', timesheets_submitted_at = None,
                timesheets_reviewed_at = None, timesheets_reviewed_by = None,
                timesheets_admin_comment = None, timesheets_created_at = now\<rparr>)
         | Some ts \<Rightarrow> recompute d ts)"

text \<open>
  Modelled from the spec: the recomputation a deletion triggers (section 4.3), of "any
  timesheet whose week window contains the entry's date", one timesheet after the
  other; the backend function is missing.
\<close>

fun recompute_each :: "db \<Rightarrow> timesheets_row list \<Rightarrow> core_error + db" where
  "recompute_each d [] = Inr d"
| "recompute_each d (ts # tss) =
     (case recompute d ts of Inl e \<Rightarrow> Inl e | Inr d' \<Rightarrow> recompute_each d' tss)"

text \<open>
  Modelled from the spec: \<open>delete(entry_id, requester)\<close> of section 4.3, "fails with
  AuthorizationError unless requester is the entry's owner or an admin; fails with
  NotFoundError if absent. Deletion is permanent and must trigger timesheet
  recomputation for any timesheet whose week window contains the entry's date"; the
  backend function is missing. The entry is looked up first, since its owner is read
  from it; the timesheets recomputed are those of the entry's owner.
\<close>

definition delete_entry :: "db \<Rightarrow> uuid \<Rightarrow> users_row \<Rightarrow> core_error + db" where
  "delete_entry d entry_id requester =
     (case find (\<lambda>e. time_entries_id e = entry_id) (time_entries d) of
        None \<Rightarrow> Inl NotFoundError
      | Some e \<Rightarrow>
          if \<not> (users_id requester = time_entries_user_id e \<or> users_role requester = ''admin'')
          then Inl AuthorizationError
          else case stored (delete_time_entries d entry_id) of
                 Inl x \<Rightarrow> Inl x
               | Inr d1 \<Rightarrow>
                   recompute_each d1
                     (filter (\<lambda>t. timesheets_user_id t = time_entries_user_id e \<and>
                                   timesheets_week_start t \<le> time_entries_date e \<and>
                                   time_entries_date e \<le> timesheets_week_end t)
                        (timesheets d1)))"

subsection \<open>ApprovalWorkflow\<close>

text \<open>
  Modelled from the spec: whom a notification of the workflow goes to (section 4.5),
  "admin recipients" or "the timesheet's owner"; the backend's notification code is
  missing.
\<close>

datatype recipient = Admins | Owner uuid

text \<open>
  Modelled from the spec: the notification the workflow hands to the dispatcher
  (section 4.5), a \<open>timesheet_submitted\<close>, \<open>timesheet_approved\<close> or
  \<open>timesheet_denied\<close> notification about one timesheet; the dispatcher that persists
  it is an external collaborator and is missing.
\<close>

record notice =
  notice_type :: string
  notice_to :: recipient
  notice_timesheet :: uuid

text \<open>
  Modelled from the spec: the reviewer's decision (section 4.5), "decision \<in> {approve,
  deny}"; the backend type is missing.
\<close>

datatype decision = Approve | Deny

text \<open>
  Modelled from the spec: \<open>submit(timesheet, now)\<close> of section 4.5, "requires status ==
  draft; fails with ConflictError otherwise. Sets status = submitted, submitted_at =
  now. Emits a timesheet_submitted notification"; the backend function is missing.
\<close>

definition submit :: "timesheets_row \<Rightarrow> timestamptz \<Rightarrow> core_error + timesheets_row \<times> notice" where
  "submit ts now =
     (if timesheets_status ts \<noteq> ''draft'' then Inl ConflictError
      else Inr (ts\<lparr>timesheets_status := ''submitted'', timesheets_submitted_at := Some now\<rparr>,
                \<lparr>notice_type = ''timesheet_submitted'', notice_to = Admins,
                 notice_timesheet = timesheets_id ts\<rparr>))"

text \<open>
  Modelled from the spec: \<open>review(timesheet, reviewer, decision, comment, now)\<close> of
  section 4.5, "requires status == submitted; fails with ConflictError otherwise.
  Sets status = approved|denied, reviewed_at = now, reviewed_by = reviewer,
  admin_comment = comment (fails with ValidationError if denying without a comment).
  Emits timesheet_approved or timesheet_denied notification to the timesheet's owner";
  the backend function is missing. The status is tested first, as the text has it.
\<close>

definition review ::
  "timesheets_row \<Rightarrow> uuid \<Rightarrow> decision \<Rightarrow> string option \<Rightarrow> timestamptz \<Rightarrow>
     core_error + timesheets_row \<times> notice" where
  "review ts reviewer dec comment now =
     (if timesheets_status ts \<noteq> ''submitted'' then Inl ConflictError
      else if dec = Deny \<and> comment = None then Inl ValidationError
      else Inr (ts\<lparr>timesheets_status := (if dec = Approve then ''approved'' else ''denied''),
                   timesheets_reviewed_at := Some now,
                   timesheets_reviewed_by := Some reviewer,
                   timesheets_admin_comment := comment\<rparr>,
                \<lparr>notice_type =
                   (if dec = Approve then ''timesheet_approved'' else ''timesheet_denied''),
                 notice_to = Owner (timesheets_user_id ts),
                 notice_timesheet = timesheets_id ts\<rparr>))"

text \<open>
  Modelled from the spec: \<open>reopen(timesheet)\<close> of section 4.5, "requires status ==
  denied; clears submitted_at, reviewed_at, reviewed_by, admin_comment", and returns
  the timesheet to \<open>draft\<close>; a transition from another status is a ConflictError
  (section 7: "transitioning from a terminal/incompatible status"); the backend
  function is missing.
\<close>

definition reopen :: "timesheets_row \<Rightarrow> core_error + timesheets_row" where
  "reopen ts =
     (if timesheets_status ts \<noteq> ''denied'' then Inl ConflictError
      else Inr (ts\<lparr>timesheets_status := ''draft'', timesheets_submitted_at := None,
                   timesheets_reviewed_at := None, timesheets_reviewed_by := None,
                   timesheets_admin_comment := None\<rparr>))"

text \<open>
  Modelled from the spec: the three transitions as one request, to speak of "any
  transition attempted" (section 4.5); the backend's dispatch is missing.
\<close>

datatype transition =
    DoSubmit timestamptz
  | DoReview uuid decision "string option" timestamptz
  | DoReopen

text \<open>
  Modelled from the spec: the timesheet a requested transition leaves, or the error it
  fails with (section 4.5); the backend's dispatch is missing.
\<close>

fun transit :: "timesheets_row \<Rightarrow> transition \<Rightarrow> core_error + timesheets_row" where
  "transit ts (DoSubmit now) = map_sum id fst (submit ts now)"
| "transit ts (DoReview reviewer dec comment now) =
     map_sum id fst (review ts reviewer dec comment now)"
| "transit ts DoReopen = reopen ts"

subsection \<open>The operations of the core on the store\<close>

text \<open>
  Modelled from the spec: a workflow transition applied to the stored timesheet with a
  given id, "NotFoundError (referenced session/entry/timesheet absent)" when there is
  none (section 7); the backend's request handling is missing.
\<close>

definition transit_stored :: "db \<Rightarrow> uuid \<Rightarrow> transition \<Rightarrow> core_error + db" where
  "transit_stored d i tr =
     (case find (\<lambda>t. timesheets_id t = i) (timesheets d) of
        None \<Rightarrow> Inl NotFoundError
      | Some ts \<Rightarrow>
          (case transit ts tr of
             Inl e \<Rightarrow> Inl e
           | Inr ts' \<Rightarrow> stored (update_timesheets d i ts')))"

text \<open>
  Modelled from the spec: \<open>recompute\<close> of section 4.4 applied to the stored timesheet
  with a given id, a NotFoundError when there is none (section 7); the backend's
  request handling is missing.
\<close>

definition recompute_stored :: "db \<Rightarrow> uuid \<Rightarrow> core_error + db" where
  "recompute_stored d i =
     (case find (\<lambda>t. timesheets_id t = i) (timesheets d) of
        None \<Rightarrow> Inl NotFoundError
      | Some ts \<Rightarrow> recompute d ts)"

text \<open>
  Modelled from the spec: every operation of section 4 that changes the store, as one
  datatype; \<open>getActive\<close> is a pure read. The backend's dispatch is missing.
\<close>

datatype operation =
    Start uuid uuid uuid uuid timestamptz
  | Heartbeat uuid timestamptz
  | Stop uuid uuid timestamptz
  | Reap "uuid \<Rightarrow> uuid" timestamptz int
  | RecordManual uuid uuid projects_row tasks_row timestamptz timestamptz "string option" timestamptz
  | DeleteEntry uuid users_row
  | EnsureDraft uuid uuid date timestamptz
  | Recompute uuid
  | Transit uuid transition

text \<open>
  Modelled from the spec: what each operation of section 4 does to the store; the
  backend's dispatch is missing.
\<close>

fun perform :: "db \<Rightarrow> operation \<Rightarrow> core_error + db" where
  "perform d (Start new_id user project task now) = start d new_id user project task now"
| "perform d (Heartbeat user now) = heartbeat d user now"
| "perform d (Stop new_id user now) = stop d new_id user now"
| "perform d (Reap new_id now threshold) = reap d new_id now threshold"
| "perform d (RecordManual new_id user project task start_time end_time notes now) =
     recordManual d new_id user project task start_time end_time notes now"
| "perform d (DeleteEntry entry_id requester) = delete_entry d entry_id requester"
| "perform d (EnsureDraft new_id user week_start now) = ensureDraft d new_id user week_start now"
| "perform d (Recompute i) = recompute_stored d i"
| "perform d (Transit i tr) = transit_stored d i tr"

text \<open>
  Modelled from the spec: the store after an operation was requested; the backend's
  request handling is missing. An operation that fails returns its error to the caller
  (section 7) and leaves the store as it was.
\<close>

definition attempt_op :: "db \<Rightarrow> operation \<Rightarrow> db" where
  "attempt_op d op = (case perform d op of Inl e \<Rightarrow> d | Inr d' \<Rightarrow> d')"

section \<open>Properties of the store, the page and the core\<close>

subsection \<open>Predicates\<close>

text \<open>The enumerated columns hold one of the values their CHECK constraint lists.\<close>

definition users_enums :: "users_row list \<Rightarrow> bool" where
  "users_enums rs = (\<forall>u \<in> set rs. users_role u \<in> {''admin'', ''employee''} \<and>
                                   users_status u \<in> {''active'', ''inactive''})"

definition time_entries_enums :: "time_entries_row list \<Rightarrow> bool" where
  "time_entries_enums rs = (\<forall>e \<in> set rs. time_entries_entry_type e \<in> {''timer'', ''manual''})"

definition timesheets_enums :: "timesheets_row list \<Rightarrow> bool" where
  "timesheets_enums rs =
     (\<forall>t \<in> set rs. timesheets_status t \<in> {''draft'', ''submitted'', ''approved'', ''denied''})"

definition notifications_enums :: "notifications_row list \<Rightarrow> bool" where
  "notifications_enums rs =
     (\<forall>n \<in> set rs. notifications_type n \<in>
        {''timesheet_submitted'', ''timesheet_approved'', ''timesheet_denied''})"

definition enums_ok :: "db \<Rightarrow> bool" where
  "enums_ok d = (users_enums (users d) \<and> time_entries_enums (time_entries d) \<and>
                 timesheets_enums (timesheets d) \<and> notifications_enums (notifications d))"

text \<open>No two user rows share an id, and no two share an email.\<close>

definition users_keyed :: "db \<Rightarrow> bool" where
  "users_keyed d = distinct (map users_id (users d))"

definition emails_unique :: "db \<Rightarrow> bool" where
  "emails_unique d = distinct (map users_email (users d))"

text \<open>
  No two timer sessions share an id; no user has two active timer sessions; a user has
  an active session.
\<close>

definition timer_sessions_keyed :: "db \<Rightarrow> bool" where
  "timer_sessions_keyed d = distinct (map timer_sessions_id (timer_sessions d))"

definition one_active_per_user :: "db \<Rightarrow> bool" where
  "one_active_per_user d =
     distinct (map timer_sessions_user_id (filter timer_sessions_is_active (timer_sessions d)))"

definition has_active :: "db \<Rightarrow> uuid \<Rightarrow> bool" where
  "has_active d u =
     (u \<in> set (map timer_sessions_user_id (filter timer_sessions_is_active (timer_sessions d))))"

text \<open>
  A time entry is closed and consistent: its end is not null and not before its start,
  and its duration is the difference of the two.
\<close>

definition entry_ok :: "time_entries_row \<Rightarrow> bool" where
  "entry_ok e =
     (case time_entries_end_time e of
        None \<Rightarrow> False
      | Some t \<Rightarrow> time_entries_start_time e \<le> t \<and>
                  time_entries_duration e = t - time_entries_start_time e \<and>
                  0 \<le> time_entries_duration e)"

definition time_entries_ok :: "db \<Rightarrow> bool" where
  "time_entries_ok d = list_all entry_ok (time_entries d)"

text \<open>No two timesheet rows share an id, and no two share a user and a week start.\<close>

definition week_of :: "timesheets_row \<Rightarrow> uuid \<times> date" where
  "week_of t = (timesheets_user_id t, timesheets_week_start t)"

definition timesheets_keyed :: "db \<Rightarrow> bool" where
  "timesheets_keyed d = distinct (map timesheets_id (timesheets d))"

definition timesheets_unique :: "db \<Rightarrow> bool" where
  "timesheets_unique d = distinct (map week_of (timesheets d))"

text \<open>
  The calls to \<open>login\<close> among the calls a handler makes; the events that come from the
  user or from \<open>login\<close>, as opposed to a submit event a script dispatches; and the page
  with at most one \<open>login\<close> pending, its submit button disabled while one is.
\<close>

fun is_login :: "call \<Rightarrow> bool" where
  "is_login (Login e p) = True"
| "is_login c = False"

fun user_event :: "event \<Rightarrow> bool" where
  "user_event DispatchSubmit = False"
| "user_event e = True"

definition in_flight_ok :: "page \<Rightarrow> bool" where
  "in_flight_ok p = (pending p \<le> 1 \<and> (pending p = 1 \<longrightarrow> submit_disabled p))"

subsection \<open>Sample data\<close>

text \<open>
  A small store for concrete runs: the two seeded users (admin 1, employee 2), one
  project of the admin with one task, and on top of it a timesheet of the employee, a
  notification to each user about that timesheet, a time entry and a running timer of
  the employee.
\<close>

definition sample_project :: projects_row where
  "sample_project = \<lparr>projects_id = 5, projects_name = ''Website'', projects_description = None,
     projects_created_by = 1, projects_status = ''active'', projects_created_at = 0\<rparr>"

definition sample_task :: tasks_row where
  "sample_task = \<lparr>tasks_id = 7, tasks_name = ''Design'', tasks_description = None,
     tasks_project_id = 5, tasks_status = ''active'', tasks_created_at = 0\<rparr>"

definition sample_db :: db where
  "sample_db = run (schema_db 1 2 0) [InsertProjects sample_project, InsertTasks sample_task]"

definition sample_session :: "uuid \<Rightarrow> timer_sessions_row" where
  "sample_session i = \<lparr>timer_sessions_id = i, timer_sessions_user_id = 2,
     timer_sessions_project_id = 5, timer_sessions_task_id = 7, timer_sessions_start_time = 10,
     timer_sessions_last_heartbeat = 10, timer_sessions_is_active = True,
     timer_sessions_date = 0\<rparr>"

definition sample_entry :: time_entries_row where
  "sample_entry = \<lparr>time_entries_id = 30, time_entries_user_id = 2, time_entries_project_id = 5,
     time_entries_task_id = 7, time_entries_start_time = 10, time_entries_end_time = Some 3610,
     time_entries_duration = 3600, time_entries_entry_type = ''manual'', time_entries_date = 0,
     time_entries_notes = None, time_entries_created_at = 0\<rparr>"

definition sample_timesheet :: timesheets_row where
  "sample_timesheet = \<lparr>timesheets_id = 10, timesheets_user_id = 2, timesheets_week_start = 0,
     timesheets_week_end = 6, timesheets_total_hours = 100, timesheets_status = ''draft'',
     timesheets_submitted_at = None, timesheets_reviewed_at = None,
     timesheets_reviewed_by = None, timesheets_admin_comment = None,
     timesheets_created_at = 0\<rparr>"

definition sample_notification :: "uuid \<Rightarrow> uuid \<Rightarrow> notifications_row" where
  "sample_notification i u = \<lparr>notifications_id = i, notifications_user_id = u,
     notifications_type = ''timesheet_submitted'', notifications_title = ''Timesheet'',
     notifications_message = ''Week 0'', notifications_read = False,
     notifications_related_timesheet_id = Some 10, notifications_created_at = 0\<rparr>"

definition busy_db :: db where
  "busy_db = run sample_db
     [InsertTimesheets sample_timesheet,
      InsertNotifications (sample_notification 20 1),
      InsertNotifications (sample_notification 21 2),
      InsertTimeEntries sample_entry,
      InsertTimerSessions (sample_session 100)]"

section \<open>Proofs\<close>

subsection \<open>Evaluating statements on concrete stores\<close>

lemmas store_eval =
  run_def attempt_def schema_db_def empty_db_def default_admin_def default_employee_def
  insert_users_def insert_projects_def insert_tasks_def insert_time_entries_def
  insert_timer_sessions_def insert_timesheets_def insert_notifications_def
  update_users_def update_projects_def update_tasks_def update_time_entries_def
  update_timer_sessions_def update_timesheets_def update_notifications_def
  delete_users_def delete_projects_def delete_tasks_def delete_time_entries_def
  delete_timer_sessions_def delete_timesheets_def delete_notifications_def null_related_def
  users_value_def projects_value_def tasks_value_def time_entries_value_def
  timer_sessions_value_def timesheets_value_def notifications_value_def
  varchar_fits_def varchar_def integer_fits_def decimal_10_2_fits_def
  has_users_def has_projects_def has_tasks_def has_time_entries_def has_timer_sessions_def
  has_timesheets_def has_notifications_def null_or_def

lemmas sample_eval =
  sample_db_def sample_project_def sample_task_def sample_session_def sample_entry_def
  sample_timesheet_def sample_notification_def busy_db_def

lemmas core_eval =
  attempt_op_def stored_def utc_date_def getActive_def start_def heartbeat_def
  recordFromSession_def terminate_def stop_def stale_def reap_def recordManual_def
  week_seconds_def total_hours_def recompute_def ensureDraft_def delete_entry_def
  submit_def review_def reopen_def transit_stored_def recompute_stored_def

lemma sample_db_value:
  "sample_db = \<lparr>users = [default_admin 1 0, default_employee 2 0], projects = [sample_project],
     tasks = [sample_task], time_entries = [], timer_sessions = [], timesheets = [],
     notifications = []\<rparr>"
  by (simp add: store_eval sample_eval)

lemma busy_db_value:
  "busy_db = \<lparr>users = [default_admin 1 0, default_employee 2 0], projects = [sample_project],
     tasks = [sample_task], time_entries = [sample_entry],
     timer_sessions = [sample_session 100], timesheets = [sample_timesheet],
     notifications = [sample_notification 20 1, sample_notification 21 2]\<rparr>"
  by (simp add: store_eval sample_eval)

subsection \<open>Shared facts\<close>

lemma stored_Inr: "stored r = Inr d \<Longrightarrow> r = Inr d"
  by (simp add: stored_def split: sum.splits)

lemma find_in: "find P xs = Some x \<Longrightarrow> x \<in> set xs \<and> P x"
  by (induction xs) (auto split: if_splits)

lemma find_none: "find P xs = None \<Longrightarrow> \<forall>x \<in> set xs. \<not> P x"
  by (induction xs) (auto split: if_splits)

subsection \<open>What a successful DELETE leaves\<close>

lemma delete_users_absent: "\<not> has_users d u \<Longrightarrow> delete_users d u = Inr d"
  by (simp add: delete_users_def)

lemma delete_users_result:
  assumes "has_users d u" and "delete_users d u = Inr d'"
  shows "d' = d\<lparr>users := filter (\<lambda>x. users_id x \<noteq> u) (users d),
               time_entries := filter (\<lambda>e. time_entries_user_id e \<noteq> u) (time_entries d),
               timer_sessions :=
                 filter (\<lambda>s. timer_sessions_user_id s \<noteq> u) (timer_sessions d),
               timesheets := filter (\<lambda>t. timesheets_user_id t \<noteq> u) (timesheets d),
               notifications :=
                 map (null_related
                        (map timesheets_id
                           (filter (\<lambda>t. timesheets_user_id t = u) (timesheets d))))
                   (filter (\<lambda>n. notifications_user_id n \<noteq> u) (notifications d))\<rparr>"
  using assms by (simp add: delete_users_def Let_def split: if_splits)

subsection \<open>The store admits one active timer session per user only if the writer checks\<close>

text \<open>
  Claim C1, as amended. The schema's index \<open>idx_timer_sessions_user_active\<close> on
  \<open>(user_id, is_active)\<close> is a plain index, so the store does not refuse a second active
  session of a user. When an insert of a timer session succeeds on a store in which no
  user has two active sessions, the same holds afterwards exactly when the new session
  is inactive or its user had no active session: the invariant is kept by a writer that
  makes this test together with its insert, not by the store.
\<close>

theorem active_session_insert:
  assumes "insert_timer_sessions d s = Inr d'" and "one_active_per_user d"
  shows "one_active_per_user d' =
           (\<not> (timer_sessions_is_active s \<and> has_active d (timer_sessions_user_id s)))"
  using assms
  by (auto simp: insert_timer_sessions_def timer_sessions_value_def one_active_per_user_def
      has_active_def split: if_splits)

text \<open>
  The claim as stated fails: on the sample store the two inserts of an active session
  for user 2 both succeed, and user 2 then has two active sessions.
\<close>

theorem second_active_session_accepted:
  "timer_sessions (run sample_db [InsertTimerSessions (sample_session 100),
                                  InsertTimerSessions (sample_session 101)]) =
     [sample_session 100, sample_session 101] \<and>
   \<not> one_active_per_user (run sample_db [InsertTimerSessions (sample_session 100),
                                         InsertTimerSessions (sample_session 101)])"
  by (simp add: store_eval sample_eval one_active_per_user_def)

theorem active_session_insert_witness:
  "insert_timer_sessions sample_db (sample_session 100) =
     Inr (attempt sample_db (InsertTimerSessions (sample_session 100))) \<and>
   one_active_per_user sample_db \<and> \<not> has_active sample_db 2 \<and>
   one_active_per_user (attempt sample_db (InsertTimerSessions (sample_session 100))) \<and>
   insert_timer_sessions busy_db (sample_session 101) =
     Inr (attempt busy_db (InsertTimerSessions (sample_session 101))) \<and>
   one_active_per_user busy_db \<and> has_active busy_db 2 \<and>
   \<not> one_active_per_user (attempt busy_db (InsertTimerSessions (sample_session 101)))"
proof -
  have a1: "insert_timer_sessions sample_db (sample_session 100) =
     Inr (attempt sample_db (InsertTimerSessions (sample_session 100)))"
    by (simp add: sample_db_value store_eval sample_eval)
  have a2: "one_active_per_user sample_db"
    by (simp add: sample_db_value one_active_per_user_def)
  have a3: "\<not> has_active sample_db 2"
    by (simp add: sample_db_value has_active_def)
  have b1: "insert_timer_sessions busy_db (sample_session 101) =
     Inr (attempt busy_db (InsertTimerSessions (sample_session 101)))"
    by (simp add: busy_db_value store_eval sample_eval)
  have b2: "one_active_per_user busy_db"
    by (simp add: busy_db_value one_active_per_user_def sample_session_def)
  have b3: "has_active busy_db 2"
    by (simp add: busy_db_value has_active_def sample_session_def)
  have s: "timer_sessions_is_active (sample_session 100)" "timer_sessions_user_id (sample_session 100) = 2"
    "timer_sessions_is_active (sample_session 101)" "timer_sessions_user_id (sample_session 101) = 2"
    by (simp_all add: sample_session_def)
  from active_session_insert[OF a1 a2] active_session_insert[OF b1 b2] a1 a2 a3 b1 b2 b3 s
  show ?thesis by simp
qed

text \<open>
  The test is the one \<open>start\<close> makes, as the specification describes it: it refuses
  with a ConflictError when the user has an active session.
\<close>

lemma getActive_None: "(getActive d u = None) = (\<not> has_active d u)"
  by (auto simp: getActive_def has_active_def find_None_iff)

lemma start_refuses_second:
  "has_active d user \<Longrightarrow> start d new_id user project task now = Inl ConflictError"
  by (cases "getActive d user") (simp_all add: start_def getActive_None)

lemma insert_timer_sessions_result:
  assumes "insert_timer_sessions d r = Inr d'"
  shows "timer_sessions d' = timer_sessions d @ [r] \<and>
         timer_sessions_id r \<notin> set (map timer_sessions_id (timer_sessions d))"
  using assms
  by (auto simp: insert_timer_sessions_def timer_sessions_value_def has_timer_sessions_def
      split: if_splits)

lemma update_timer_sessions_result:
  assumes "update_timer_sessions d i r = Inr d'"
  shows "timer_sessions d' =
           map (\<lambda>x. if timer_sessions_id x = i then r\<lparr>timer_sessions_id := i\<rparr> else x)
             (timer_sessions d)"
proof (cases "has_timer_sessions d i")
  case False
  then have "\<forall>x \<in> set (timer_sessions d). timer_sessions_id x \<noteq> i"
    by (auto simp: has_timer_sessions_def)
  then have "map (\<lambda>x. if timer_sessions_id x = i then r\<lparr>timer_sessions_id := i\<rparr> else x)
             (timer_sessions d) = timer_sessions d"
    by (simp add: map_idI)
  with False assms show ?thesis by (simp add: update_timer_sessions_def)
next
  case True
  with assms show ?thesis
    by (auto simp: update_timer_sessions_def timer_sessions_value_def split: if_splits)
qed

text \<open>
  With the operations of the core as the specification describes them, every
  operation keeps the invariant on a store whose timer sessions have distinct ids.
\<close>

lemma start_invariant:
  assumes "timer_sessions_keyed d \<and> one_active_per_user d"
    and "start d new_id user project task now = Inr d'"
  shows "timer_sessions_keyed d' \<and> one_active_per_user d'"
proof -
  from assms(2) have none: "getActive d user = None"
    by (cases "getActive d user") (simp_all add: start_def)
  with assms(2) obtain r where r: "insert_timer_sessions d r = Inr d'"
    and ru: "timer_sessions_user_id r = user"
    by (auto simp: start_def dest!: stored_Inr)
  from none have "user \<notin> set (map timer_sessions_user_id
      (filter timer_sessions_is_active (timer_sessions d)))"
    by (simp add: getActive_None has_active_def)
  with insert_timer_sessions_result[OF r] ru assms(1) show ?thesis
    by (simp add: timer_sessions_keyed_def one_active_per_user_def)
qed

lemma replace_same_key:
  assumes "distinct (map timer_sessions_id xs)" and "s \<in> set xs"
    and "timer_sessions_id v = timer_sessions_id s"
    and "timer_sessions_user_id v = timer_sessions_user_id s"
    and "timer_sessions_is_active v = timer_sessions_is_active s"
  shows "map (\<lambda>x. (timer_sessions_id x, timer_sessions_user_id x, timer_sessions_is_active x))
           (map (\<lambda>x. if timer_sessions_id x = timer_sessions_id s then v else x) xs) =
         map (\<lambda>x. (timer_sessions_id x, timer_sessions_user_id x, timer_sessions_is_active x)) xs"
  unfolding map_map
proof (rule map_cong[OF refl])
  fix x assume x: "x \<in> set xs"
  show "((\<lambda>x. (timer_sessions_id x, timer_sessions_user_id x, timer_sessions_is_active x)) \<circ>
          (\<lambda>x. if timer_sessions_id x = timer_sessions_id s then v else x)) x =
        (timer_sessions_id x, timer_sessions_user_id x, timer_sessions_is_active x)"
  proof (cases "timer_sessions_id x = timer_sessions_id s")
    case True
    with assms(1,2) x have "x = s" by (meson distinct_map inj_onD)
    with assms(3-5) show ?thesis by simp
  next
    case False
    then show ?thesis by simp
  qed
qed

lemma same_session_keys:
  assumes "map (\<lambda>x. (timer_sessions_id x, timer_sessions_user_id x, timer_sessions_is_active x))
             (timer_sessions d') =
           map (\<lambda>x. (timer_sessions_id x, timer_sessions_user_id x, timer_sessions_is_active x))
             (timer_sessions d)"
    and "timer_sessions_keyed d \<and> one_active_per_user d"
  shows "timer_sessions_keyed d' \<and> one_active_per_user d'"
proof -
  have ids: "map timer_sessions_id xs =
      map fst (map (\<lambda>x. (timer_sessions_id x, timer_sessions_user_id x, timer_sessions_is_active x)) xs)"
    for xs by (simp add: comp_def)
  have act: "map timer_sessions_user_id (filter timer_sessions_is_active xs) =
      map (fst \<circ> snd) (filter (snd \<circ> snd)
        (map (\<lambda>x. (timer_sessions_id x, timer_sessions_user_id x, timer_sessions_is_active x)) xs))"
    for xs by (induction xs) auto
  from assms(2) show ?thesis
    unfolding timer_sessions_keyed_def one_active_per_user_def
    by (simp only: ids[of "timer_sessions d'"] ids[of "timer_sessions d"]
        act[of "timer_sessions d'"] act[of "timer_sessions d"] assms(1))
qed

lemma heartbeat_invariant:
  assumes "timer_sessions_keyed d \<and> one_active_per_user d"
    and "heartbeat d user now = Inr d'"
  shows "timer_sessions_keyed d' \<and> one_active_per_user d'"
proof -
  from assms(2) obtain s where s: "getActive d user = Some s"
    and up: "update_timer_sessions d (timer_sessions_id s)
               (s\<lparr>timer_sessions_last_heartbeat := now\<rparr>) = Inr d'"
    by (cases "getActive d user") (auto simp: heartbeat_def dest!: stored_Inr)
  from find_in[OF s[unfolded getActive_def]] have sin: "s \<in> set (timer_sessions d)" by simp
  from assms(1) have k: "distinct (map timer_sessions_id (timer_sessions d))"
    by (simp add: timer_sessions_keyed_def)
  have "timer_sessions d' =
      map (\<lambda>x. if timer_sessions_id x = timer_sessions_id s
                then s\<lparr>timer_sessions_last_heartbeat := now\<rparr> else x) (timer_sessions d)"
    using update_timer_sessions_result[OF up] by simp
  with replace_same_key[OF k sin, of "s\<lparr>timer_sessions_last_heartbeat := now\<rparr>"]
  have "map (\<lambda>x. (timer_sessions_id x, timer_sessions_user_id x, timer_sessions_is_active x))
             (timer_sessions d') =
           map (\<lambda>x. (timer_sessions_id x, timer_sessions_user_id x, timer_sessions_is_active x))
             (timer_sessions d)"
    by simp
  from same_session_keys[OF this assms(1)] show ?thesis .
qed

lemma deactivate_invariant:
  assumes "timer_sessions_keyed d \<and> one_active_per_user d"
    and "timer_sessions d' =
           map (\<lambda>x. if timer_sessions_id x = i then v else x) (timer_sessions d)"
    and "timer_sessions_id v = i" and "\<not> timer_sessions_is_active v"
  shows "timer_sessions_keyed d' \<and> one_active_per_user d'"
proof -
  have ids: "map timer_sessions_id (map (\<lambda>x. if timer_sessions_id x = i then v else x) xs) =
      map timer_sessions_id xs" for xs
    using assms(3) by (induction xs) auto
  have act: "filter timer_sessions_is_active (map (\<lambda>x. if timer_sessions_id x = i then v else x) xs) =
      filter (\<lambda>x. timer_sessions_id x \<noteq> i) (filter timer_sessions_is_active xs)" for xs
    using assms(4) by (induction xs) auto
  from assms(1) have k: "distinct (map timer_sessions_id (timer_sessions d))"
    and a: "distinct (map timer_sessions_user_id
              (filter timer_sessions_is_active (timer_sessions d)))"
    by (simp_all add: timer_sessions_keyed_def one_active_per_user_def)
  from a have "distinct (map timer_sessions_user_id
      (filter (\<lambda>x. timer_sessions_id x \<noteq> i)
        (filter timer_sessions_is_active (timer_sessions d))))"
    by (rule distinct_map_filter)
  with k show ?thesis
    unfolding timer_sessions_keyed_def one_active_per_user_def assms(2) ids act
    by (rule conjI)
qed

lemma insert_time_entries_sessions:
  "insert_time_entries d r = Inr d' \<Longrightarrow> timer_sessions d' = timer_sessions d"
  by (auto simp: insert_time_entries_def split: sum.splits if_splits)

lemma insert_timesheets_sessions:
  "insert_timesheets d r = Inr d' \<Longrightarrow> timer_sessions d' = timer_sessions d"
  by (auto simp: insert_timesheets_def split: sum.splits if_splits)

lemma update_timesheets_sessions:
  "update_timesheets d i r = Inr d' \<Longrightarrow> timer_sessions d' = timer_sessions d"
  by (auto simp: update_timesheets_def split: sum.splits if_splits)

lemma same_sessions:
  assumes "timer_sessions_keyed d \<and> one_active_per_user d"
    and "timer_sessions d' = timer_sessions d"
  shows "timer_sessions_keyed d' \<and> one_active_per_user d'"
  using assms by (simp add: timer_sessions_keyed_def one_active_per_user_def)

lemma terminate_invariant:
  assumes "timer_sessions_keyed d \<and> one_active_per_user d"
    and "terminate d new_id s t now = Inr d'"
  shows "timer_sessions_keyed d' \<and> one_active_per_user d'"
proof -
  from assms(2) obtain d1 r
    where d1: "update_timer_sessions d (timer_sessions_id s)
                 (s\<lparr>timer_sessions_is_active := False\<rparr>) = Inr d1"
      and rec: "insert_time_entries d1 r = Inr d'"
    unfolding terminate_def Let_def recordFromSession_def
    by (auto split: sum.splits dest!: stored_Inr)
  from update_timer_sessions_result[OF d1]
  have "timer_sessions d1 =
      map (\<lambda>x. if timer_sessions_id x = timer_sessions_id s
                then s\<lparr>timer_sessions_is_active := False\<rparr> else x) (timer_sessions d)"
    by simp
  from deactivate_invariant[OF assms(1) this]
  have "timer_sessions_keyed d1 \<and> one_active_per_user d1" by simp
  from same_sessions[OF this insert_time_entries_sessions[OF rec]] show ?thesis .
qed

lemma reap_each_invariant:
  "timer_sessions_keyed d \<and> one_active_per_user d \<Longrightarrow> reap_each d new_id ss now = Inr d' \<Longrightarrow>
     timer_sessions_keyed d' \<and> one_active_per_user d'"
proof (induction ss arbitrary: d)
  case Nil
  then show ?case by simp
next
  case (Cons s ss)
  from Cons.prems(2) obtain d1
    where t: "terminate d (new_id (timer_sessions_id s)) s (timer_sessions_last_heartbeat s) now = Inr d1"
      and rest: "reap_each d1 new_id ss now = Inr d'"
    by (cases "terminate d (new_id (timer_sessions_id s)) s (timer_sessions_last_heartbeat s) now")
       auto
  from Cons.IH[OF terminate_invariant[OF Cons.prems(1) t] rest] show ?case .
qed

lemma recompute_sessions: "recompute d ts = Inr d' \<Longrightarrow> timer_sessions d' = timer_sessions d"
  by (auto simp: recompute_def dest!: stored_Inr update_timesheets_sessions split: if_splits)

lemma recompute_each_sessions:
  "recompute_each d tss = Inr d' \<Longrightarrow> timer_sessions d' = timer_sessions d"
proof (induction tss arbitrary: d)
  case Nil
  then show ?case by simp
next
  case (Cons ts tss)
  then show ?case
    by (cases "recompute d ts") (auto dest: recompute_sessions)
qed

lemma one_active_per_user_invariant:
  assumes "timer_sessions_keyed d \<and> one_active_per_user d" and "perform d op = Inr d'"
  shows "timer_sessions_keyed d' \<and> one_active_per_user d'"
proof (cases op)
  case (Start new_id user project task now)
  with assms(2) have "start d new_id user project task now = Inr d'" by simp
  from start_invariant[OF assms(1) this] show ?thesis .
next
  case (Heartbeat user now)
  with assms(2) have "heartbeat d user now = Inr d'" by simp
  from heartbeat_invariant[OF assms(1) this] show ?thesis .
next
  case (Stop new_id user now)
  with assms(2) obtain s where "terminate d new_id s now now = Inr d'"
    by (cases "getActive d user") (auto simp: stop_def)
  from terminate_invariant[OF assms(1) this] show ?thesis .
next
  case (Reap new_id now threshold)
  with assms(2) have "reap_each d new_id (filter (stale now threshold) (timer_sessions d)) now = Inr d'"
    by (simp add: reap_def)
  from reap_each_invariant[OF assms(1) this] show ?thesis .
next
  case (RecordManual new_id user project task start_time end_time memo now)
  with assms(2) have "timer_sessions d' = timer_sessions d"
    by (auto simp: recordManual_def split: if_splits
        dest!: stored_Inr insert_time_entries_sessions)
  from same_sessions[OF assms(1) this] show ?thesis .
next
  case (DeleteEntry entry_id requester)
  with assms(2) have "delete_entry d entry_id requester = Inr d'" by simp
  then obtain tss
    where "recompute_each (d\<lparr>time_entries :=
             filter (\<lambda>x. time_entries_id x \<noteq> entry_id) (time_entries d)\<rparr>) tss = Inr d'"
    unfolding delete_entry_def delete_time_entries_def stored_def
    by (auto split: option.splits if_splits)
  from recompute_each_sessions[OF this] have "timer_sessions d' = timer_sessions d" by simp
  from same_sessions[OF assms(1) this] show ?thesis .
next
  case (EnsureDraft new_id user week_start now)
  with assms(2) have "timer_sessions d' = timer_sessions d"
    by (auto simp: ensureDraft_def Let_def split: option.splits
        dest!: stored_Inr insert_timesheets_sessions recompute_sessions)
  from same_sessions[OF assms(1) this] show ?thesis .
next
  case (Recompute i)
  with assms(2) have "timer_sessions d' = timer_sessions d"
    by (auto simp: recompute_stored_def split: option.splits dest!: recompute_sessions)
  from same_sessions[OF assms(1) this] show ?thesis .
next
  case (Transit i tr)
  with assms(2) have "timer_sessions d' = timer_sessions d"
    by (auto simp: transit_stored_def split: option.splits sum.splits
        dest!: stored_Inr update_timesheets_sessions)
  from same_sessions[OF assms(1) this] show ?thesis .
qed

subsection \<open>Time entries written by the core are closed and consistent\<close>

lemma insert_timer_sessions_frame:
  "insert_timer_sessions d r = Inr d' \<Longrightarrow>
     time_entries d' = time_entries d \<and> timesheets d' = timesheets d"
  by (auto simp: insert_timer_sessions_def split: sum.splits if_splits)

lemma update_timer_sessions_frame:
  "update_timer_sessions d i r = Inr d' \<Longrightarrow>
     time_entries d' = time_entries d \<and> timesheets d' = timesheets d"
  by (auto simp: update_timer_sessions_def split: sum.splits if_splits)

lemma insert_timesheets_frame:
  "insert_timesheets d r = Inr d' \<Longrightarrow> time_entries d' = time_entries d"
  by (auto simp: insert_timesheets_def split: sum.splits if_splits)

lemma update_timesheets_frame:
  "update_timesheets d i r = Inr d' \<Longrightarrow> time_entries d' = time_entries d"
  by (auto simp: update_timesheets_def split: sum.splits if_splits)

lemma insert_time_entries_result:
  assumes "insert_time_entries d r = Inr d'"
  shows "\<exists>v. time_entries_value r = Inr v \<and> time_entries d' = time_entries d @ [v] \<and>
             timesheets d' = timesheets d"
  using assms by (auto simp: insert_time_entries_def split: sum.splits if_splits)

lemma time_entries_value_fields:
  assumes "time_entries_value r = Inr v"
  shows "time_entries_start_time v = time_entries_start_time r \<and>
         time_entries_end_time v = time_entries_end_time r \<and>
         time_entries_duration v = time_entries_duration r"
  using assms unfolding time_entries_value_def Let_def by (auto split: if_splits)

lemma entry_ok_value: "time_entries_value r = Inr v \<Longrightarrow> entry_ok r \<Longrightarrow> entry_ok v"
  using time_entries_value_fields[of r v] by (auto simp: entry_ok_def split: option.splits)

lemma insert_time_entries_ok:
  assumes "time_entries_ok d" and "insert_time_entries d r = Inr d'" and "entry_ok r"
  shows "time_entries_ok d'"
proof -
  from insert_time_entries_result[OF assms(2)] obtain v
    where v: "time_entries_value r = Inr v" and d': "time_entries d' = time_entries d @ [v]"
    by blast
  from entry_ok_value[OF v assms(3)] assms(1) d' show ?thesis
    by (simp add: time_entries_ok_def)
qed

lemma recompute_frame: "recompute d ts = Inr d' \<Longrightarrow> time_entries d' = time_entries d"
  by (auto simp: recompute_def dest!: stored_Inr update_timesheets_frame split: if_splits)

lemma recompute_each_frame: "recompute_each d tss = Inr d' \<Longrightarrow> time_entries d' = time_entries d"
proof (induction tss arbitrary: d)
  case Nil
  then show ?case by simp
next
  case (Cons ts tss)
  then show ?case
    by (cases "recompute d ts") (auto dest: recompute_frame)
qed

lemma terminate_ok:
  assumes "time_entries_ok d" and "terminate d new_id s t now = Inr d'"
  shows "time_entries_ok d'"
proof -
  define end_time where
    "end_time = (if t < timer_sessions_start_time s then timer_sessions_start_time s else t)"
  from assms(2) obtain d1
    where d1: "update_timer_sessions d (timer_sessions_id s) (s\<lparr>timer_sessions_is_active := False\<rparr>) = Inr d1"
      and rec: "recordFromSession d1 new_id s end_time now = Inr d'"
    unfolding terminate_def Let_def end_time_def
    by (auto split: sum.splits dest: stored_Inr)
  from update_timer_sessions_frame[OF d1] assms(1) have ok1: "time_entries_ok d1"
    by (simp add: time_entries_ok_def)
  have "timer_sessions_start_time s \<le> end_time" by (simp add: end_time_def)
  then have "entry_ok \<lparr>time_entries_id = new_id,
        time_entries_user_id = timer_sessions_user_id s,
        time_entries_project_id = timer_sessions_project_id s,
        time_entries_task_id = timer_sessions_task_id s,
        time_entries_start_time = timer_sessions_start_time s,
        time_entries_end_time = Some end_time,
        time_entries_duration = end_time - timer_sessions_start_time s,
        time_entries_entry_type = ''timer'',
        time_entries_date = timer_sessions_date s,
        time_entries_notes = None,
        time_entries_created_at = now\<rparr>"
    by (simp add: entry_ok_def)
  with rec ok1 show ?thesis
    unfolding recordFromSession_def by (auto dest!: stored_Inr intro: insert_time_entries_ok)
qed

lemma reap_each_ok:
  "time_entries_ok d \<Longrightarrow> reap_each d new_id ss now = Inr d' \<Longrightarrow> time_entries_ok d'"
proof (induction ss arbitrary: d)
  case Nil
  then show ?case by simp
next
  case (Cons s ss)
  then show ?case
    by (cases "terminate d (new_id (timer_sessions_id s)) s (timer_sessions_last_heartbeat s) now")
       (auto intro: terminate_ok)
qed

lemma recordManual_ok:
  assumes "time_entries_ok d"
    and "recordManual d new_id user project task start_time end_time notes now = Inr d'"
  shows "time_entries_ok d'"
proof -
  from assms(2) have le: "start_time \<le> end_time"
    by (auto simp: recordManual_def split: if_splits)
  then have "entry_ok \<lparr>time_entries_id = new_id,
              time_entries_user_id = user,
              time_entries_project_id = projects_id project,
              time_entries_task_id = tasks_id task,
              time_entries_start_time = start_time,
              time_entries_end_time = Some end_time,
              time_entries_duration = end_time - start_time,
              time_entries_entry_type = ''manual'',
              time_entries_date = utc_date start_time,
              time_entries_notes = notes,
              time_entries_created_at = now\<rparr>"
    by (simp add: entry_ok_def)
  with assms show ?thesis
    unfolding recordManual_def
    by (auto split: if_splits dest!: stored_Inr intro: insert_time_entries_ok)
qed

lemma delete_entry_ok:
  assumes "time_entries_ok d" and "delete_entry d entry_id requester = Inr d'"
  shows "time_entries_ok d'"
proof -
  from assms(2) obtain tss
    where "recompute_each (d\<lparr>time_entries :=
             filter (\<lambda>x. time_entries_id x \<noteq> entry_id) (time_entries d)\<rparr>) tss = Inr d'"
    unfolding delete_entry_def delete_time_entries_def stored_def
    by (auto split: option.splits if_splits)
  from recompute_each_frame[OF this] assms(1) show ?thesis
    by (simp add: time_entries_ok_def list_all_iff)
qed

text \<open>
  Claim C2. Every operation of the core keeps every stored time entry closed and
  consistent: its \<open>end_time\<close> is not null and not before its \<open>start_time\<close>, and its
  \<open>duration\<close> is \<open>end_time - start_time\<close> in seconds, which is not negative. No
  operation takes a duration: \<open>stop\<close> and the reaper derive it from the session and the
  (clamped) end, \<open>recordManual\<close> from the two times it validates.
\<close>

theorem time_entries_invariant:
  assumes "time_entries_ok d" and "perform d op = Inr d'"
  shows "time_entries_ok d'"
proof (cases op)
  case (Start new_id user project task now)
  with assms(2) have "time_entries d' = time_entries d"
    by (auto simp: start_def split: option.splits dest!: stored_Inr insert_timer_sessions_frame)
  with assms(1) show ?thesis by (simp add: time_entries_ok_def)
next
  case (Heartbeat user now)
  with assms(2) have "time_entries d' = time_entries d"
    by (auto simp: heartbeat_def split: option.splits dest!: stored_Inr update_timer_sessions_frame)
  with assms(1) show ?thesis by (simp add: time_entries_ok_def)
next
  case (Stop new_id user now)
  with assms show ?thesis
    by (auto simp: stop_def split: option.splits intro: terminate_ok)
next
  case (Reap new_id now threshold)
  with assms show ?thesis
    by (auto simp: reap_def intro: reap_each_ok)
next
  case (RecordManual new_id user project task start_time end_time memo now)
  with assms show ?thesis
    by (auto intro: recordManual_ok)
next
  case (DeleteEntry entry_id requester)
  with assms show ?thesis
    by (auto intro: delete_entry_ok)
next
  case (EnsureDraft new_id user week_start now)
  with assms(2) have "time_entries d' = time_entries d"
    by (auto simp: ensureDraft_def Let_def split: option.splits
        dest!: stored_Inr insert_timesheets_frame recompute_frame)
  with assms(1) show ?thesis by (simp add: time_entries_ok_def)
next
  case (Recompute i)
  with assms(2) have "time_entries d' = time_entries d"
    by (auto simp: recompute_stored_def split: option.splits dest!: recompute_frame)
  with assms(1) show ?thesis by (simp add: time_entries_ok_def)
next
  case (Transit i tr)
  with assms(2) have "time_entries d' = time_entries d"
    by (auto simp: transit_stored_def split: option.splits sum.splits
        dest!: stored_Inr update_timesheets_frame)
  with assms(1) show ?thesis by (simp add: time_entries_ok_def)
qed

text \<open>
  Stopping at 40 the timer that user 2 started at 10 adds an entry of 30 seconds;
  stopping it at 5, before its start, adds an entry of 0 seconds that ends at its start.
\<close>

theorem time_entries_invariant_witness:
  "time_entries_ok busy_db \<and>
   perform busy_db (Stop 31 2 40) = Inr (attempt_op busy_db (Stop 31 2 40)) \<and>
   time_entries_ok (attempt_op busy_db (Stop 31 2 40)) \<and>
   map (\<lambda>e. (time_entries_id e, time_entries_start_time e, time_entries_end_time e,
             time_entries_duration e))
     (time_entries (attempt_op busy_db (Stop 31 2 40))) =
     [(30, 10, Some 3610, 3600), (31, 10, Some 40, 30)] \<and>
   perform busy_db (Stop 31 2 5) = Inr (attempt_op busy_db (Stop 31 2 5)) \<and>
   time_entries_ok (attempt_op busy_db (Stop 31 2 5)) \<and>
   map (\<lambda>e. (time_entries_id e, time_entries_start_time e, time_entries_end_time e,
             time_entries_duration e))
     (time_entries (attempt_op busy_db (Stop 31 2 5))) =
     [(30, 10, Some 3610, 3600), (31, 10, Some 10, 0)]"
proof -
  have ok: "time_entries_ok busy_db"
    by (simp add: busy_db_value time_entries_ok_def entry_ok_def sample_entry_def)
  have p1: "perform busy_db (Stop 31 2 40) = Inr (attempt_op busy_db (Stop 31 2 40))"
    by (simp add: busy_db_value core_eval store_eval sample_eval)
  have p2: "perform busy_db (Stop 31 2 5) = Inr (attempt_op busy_db (Stop 31 2 5))"
    by (simp add: busy_db_value core_eval store_eval sample_eval)
  have e1: "map (\<lambda>e. (time_entries_id e, time_entries_start_time e, time_entries_end_time e,
             time_entries_duration e))
     (time_entries (attempt_op busy_db (Stop 31 2 40))) =
     [(30, 10, Some 3610, 3600), (31, 10, Some 40, 30)]"
    by (simp add: busy_db_value core_eval store_eval sample_eval)
  have e2: "map (\<lambda>e. (time_entries_id e, time_entries_start_time e, time_entries_end_time e,
             time_entries_duration e))
     (time_entries (attempt_op busy_db (Stop 31 2 5))) =
     [(30, 10, Some 3610, 3600), (31, 10, Some 10, 0)]"
    by (simp add: busy_db_value core_eval store_eval sample_eval)
  from time_entries_invariant[OF ok p1] time_entries_invariant[OF ok p2] ok p1 p2 e1 e2
  show ?thesis by simp
qed

text \<open>
  The store alone does not give this: \<open>end_time\<close> is a nullable column and \<open>duration\<close>
  an independent one, so an entry that is still open is accepted.
\<close>

lemma store_accepts_open_time_entry:
  "time_entries (run sample_db
     [InsertTimeEntries (sample_entry\<lparr>time_entries_end_time := None,
                                      time_entries_duration := 0\<rparr>)]) =
     [sample_entry\<lparr>time_entries_end_time := None, time_entries_duration := 0\<rparr>]"
  by (simp add: sample_db_value store_eval sample_eval)

subsection \<open>One timesheet per user and week\<close>

lemma timesheets_value_fields:
  assumes "timesheets_value r = Inr v"
  shows "timesheets_id v = timesheets_id r \<and> week_of v = week_of r"
  using assms unfolding timesheets_value_def Let_def week_of_def by (auto split: if_splits)

lemma timesheets_same_keys:
  assumes "map (\<lambda>t. (timesheets_id t, week_of t)) (timesheets d') =
           map (\<lambda>t. (timesheets_id t, week_of t)) (timesheets d)"
  shows "map timesheets_id (timesheets d') = map timesheets_id (timesheets d)"
    and "map week_of (timesheets d') = map week_of (timesheets d)"
proof -
  have "map fst (map (\<lambda>t. (timesheets_id t, week_of t)) (timesheets d')) =
        map fst (map (\<lambda>t. (timesheets_id t, week_of t)) (timesheets d))"
    by (simp only: assms)
  then show "map timesheets_id (timesheets d') = map timesheets_id (timesheets d)"
    by (simp add: comp_def)
  have "map snd (map (\<lambda>t. (timesheets_id t, week_of t)) (timesheets d')) =
        map snd (map (\<lambda>t. (timesheets_id t, week_of t)) (timesheets d))"
    by (simp only: assms)
  then show "map week_of (timesheets d') = map week_of (timesheets d)"
    by (simp add: comp_def)
qed

lemma update_timesheets_keys:
  assumes "update_timesheets d i r = Inr d'"
    and "\<forall>x \<in> set (timesheets d). timesheets_id x = i \<longrightarrow> week_of x = week_of r"
  shows "map (\<lambda>t. (timesheets_id t, week_of t)) (timesheets d') =
         map (\<lambda>t. (timesheets_id t, week_of t)) (timesheets d)"
proof (cases "has_timesheets d i")
  case False
  with assms(1) show ?thesis by (simp add: update_timesheets_def)
next
  case True
  with assms(1) obtain v where v: "timesheets_value (r\<lparr>timesheets_id := i\<rparr>) = Inr v"
    and d': "timesheets d' = map (\<lambda>x. if timesheets_id x = i then v else x) (timesheets d)"
    by (auto simp: update_timesheets_def split: sum.splits if_splits)
  from timesheets_value_fields[OF v] have vi: "timesheets_id v = i" and vw: "week_of v = week_of r"
    by (simp_all add: week_of_def)
  show ?thesis
    unfolding d' map_map
    by (rule map_cong[OF refl]) (use assms(2) vi vw in auto)
qed

lemma recompute_keys:
  assumes "recompute d ts = Inr d'"
    and "\<forall>x \<in> set (timesheets d). timesheets_id x = timesheets_id ts \<longrightarrow> week_of x = week_of ts"
  shows "map (\<lambda>t. (timesheets_id t, week_of t)) (timesheets d') =
         map (\<lambda>t. (timesheets_id t, week_of t)) (timesheets d)"
proof (cases "timesheets_status ts = ''draft''")
  case False
  with assms(1) show ?thesis by (simp add: recompute_def)
next
  case True
  with assms(1) have "update_timesheets d (timesheets_id ts)
             (ts\<lparr>timesheets_total_hours :=
                   total_hours (week_seconds d (timesheets_user_id ts)
                     (timesheets_week_start ts) (timesheets_week_end ts))\<rparr>) = Inr d'"
    by (simp add: recompute_def stored_Inr)
  from update_timesheets_keys[OF this] assms(2) show ?thesis
    by (simp add: week_of_def)
qed

lemma recompute_each_keys:
  assumes "recompute_each d tss = Inr d'"
    and "\<forall>ts \<in> set tss. \<forall>x \<in> set (timesheets d).
           timesheets_id x = timesheets_id ts \<longrightarrow> week_of x = week_of ts"
  shows "map (\<lambda>t. (timesheets_id t, week_of t)) (timesheets d') =
         map (\<lambda>t. (timesheets_id t, week_of t)) (timesheets d)"
  using assms
proof (induction tss arbitrary: d)
  case Nil
  then show ?case by simp
next
  case (Cons ts tss)
  from Cons.prems(1) obtain d1 where d1: "recompute d ts = Inr d1"
    and rest: "recompute_each d1 tss = Inr d'"
    by (cases "recompute d ts") auto
  from Cons.prems(2) have
    "\<forall>x \<in> set (timesheets d). timesheets_id x = timesheets_id ts \<longrightarrow> week_of x = week_of ts"
    by simp
  note k1 = recompute_keys[OF d1 this]
  have "\<forall>t \<in> set tss. \<forall>x \<in> set (timesheets d1).
           timesheets_id x = timesheets_id t \<longrightarrow> week_of x = week_of t"
  proof (intro ballI impI)
    fix t x assume t: "t \<in> set tss" and x: "x \<in> set (timesheets d1)"
      and id: "timesheets_id x = timesheets_id t"
    from x have "(timesheets_id x, week_of x) \<in> set (map (\<lambda>t. (timesheets_id t, week_of t)) (timesheets d1))"
      by auto
    with k1 have "(timesheets_id x, week_of x) \<in> set (map (\<lambda>t. (timesheets_id t, week_of t)) (timesheets d))"
      by simp
    then obtain y where y: "y \<in> set (timesheets d)" and yi: "timesheets_id y = timesheets_id x"
      and yw: "week_of y = week_of x"
      by auto
    from Cons.prems(2) t y yi id have "week_of y = week_of t" by simp
    with yw show "week_of x = week_of t" by simp
  qed
  from Cons.IH[OF rest this] k1 show ?case by simp
qed

lemma keyed_same:
  assumes "distinct (map timesheets_id xs)" and "ts \<in> set xs"
  shows "\<forall>x \<in> set xs. timesheets_id x = timesheets_id ts \<longrightarrow> week_of x = week_of ts"
proof (intro ballI impI)
  fix x assume "x \<in> set xs" and "timesheets_id x = timesheets_id ts"
  with assms have "x = ts" by (meson distinct_map inj_onD)
  then show "week_of x = week_of ts" by simp
qed

lemma keys_invariant:
  assumes "timesheets_keyed d \<and> timesheets_unique d"
    and "map (\<lambda>t. (timesheets_id t, week_of t)) (timesheets d') =
         map (\<lambda>t. (timesheets_id t, week_of t)) (timesheets d)"
  shows "timesheets_keyed d' \<and> timesheets_unique d'"
  using assms(1) timesheets_same_keys[OF assms(2)]
  by (simp add: timesheets_keyed_def timesheets_unique_def)

lemma same_invariant:
  assumes "timesheets_keyed d \<and> timesheets_unique d" and "timesheets d' = timesheets d"
  shows "timesheets_keyed d' \<and> timesheets_unique d'"
  using assms by (simp add: timesheets_keyed_def timesheets_unique_def)

lemma terminate_timesheets:
  assumes "terminate d new_id s t now = Inr d'"
  shows "timesheets d' = timesheets d"
proof -
  from assms obtain d1 r
    where d1: "update_timer_sessions d (timer_sessions_id s) (s\<lparr>timer_sessions_is_active := False\<rparr>) = Inr d1"
      and rec: "insert_time_entries d1 r = Inr d'"
    unfolding terminate_def Let_def recordFromSession_def
    by (auto split: sum.splits dest!: stored_Inr)
  from update_timer_sessions_frame[OF d1] insert_time_entries_result[OF rec] show ?thesis
    by auto
qed

lemma reap_each_timesheets:
  "reap_each d new_id ss now = Inr d' \<Longrightarrow> timesheets d' = timesheets d"
proof (induction ss arbitrary: d)
  case Nil
  then show ?case by simp
next
  case (Cons s ss)
  then show ?case
    by (cases "terminate d (new_id (timer_sessions_id s)) s (timer_sessions_last_heartbeat s) now")
       (auto dest: terminate_timesheets)
qed

lemma ensureDraft_invariant:
  assumes inv: "timesheets_keyed d \<and> timesheets_unique d"
    and "ensureDraft d new_id user week_start now = Inr d'"
  shows "timesheets_keyed d' \<and> timesheets_unique d'"
proof (cases "find (\<lambda>t. timesheets_user_id t = user \<and> timesheets_week_start t = week_start)
                (timesheets d)")
  case None
  from find_none[OF None] have fresh: "(user, week_start) \<notin> set (map week_of (timesheets d))"
    by (auto simp: week_of_def)
  from None assms(2) obtain r where r: "insert_timesheets d r = Inr d'"
    and rw: "week_of r = (user, week_start)"
    unfolding ensureDraft_def Let_def
    by (auto simp: week_of_def dest!: stored_Inr)
  from r obtain v where v: "timesheets_value r = Inr v"
    and new: "timesheets_id v \<notin> set (map timesheets_id (timesheets d))"
    and d': "timesheets d' = timesheets d @ [v]"
    unfolding insert_timesheets_def has_timesheets_def
    by (cases "timesheets_value r") (auto split: if_splits)
  from timesheets_value_fields[OF v] rw have "week_of v = (user, week_start)" by simp
  with fresh new inv d' show ?thesis
    by (simp add: timesheets_keyed_def timesheets_unique_def)
next
  case (Some ts)
  with assms(2) have rc: "recompute d ts = Inr d'"
    by (simp add: ensureDraft_def Let_def)
  from find_in[OF Some] have "ts \<in> set (timesheets d)" by simp
  from keyed_same[OF _ this] inv have
    "\<forall>x \<in> set (timesheets d). timesheets_id x = timesheets_id ts \<longrightarrow> week_of x = week_of ts"
    by (simp add: timesheets_keyed_def)
  from keys_invariant[OF inv recompute_keys[OF rc this]] show ?thesis .
qed

lemma transit_keys: "transit ts tr = Inr ts' \<Longrightarrow> week_of ts' = week_of ts"
  by (cases tr) (auto simp: submit_def review_def reopen_def week_of_def split: if_splits)

lemma transit_stored_invariant:
  assumes inv: "timesheets_keyed d \<and> timesheets_unique d"
    and "transit_stored d i tr = Inr d'"
  shows "timesheets_keyed d' \<and> timesheets_unique d'"
proof -
  from assms(2) obtain ts ts' where f: "find (\<lambda>t. timesheets_id t = i) (timesheets d) = Some ts"
    and tr: "transit ts tr = Inr ts'" and up: "update_timesheets d i ts' = Inr d'"
    unfolding transit_stored_def
    by (auto split: option.splits sum.splits dest!: stored_Inr)
  from find_in[OF f] have ts: "ts \<in> set (timesheets d)" and i: "timesheets_id ts = i" by simp_all
  from keyed_same[OF _ ts] inv i transit_keys[OF tr] have
    "\<forall>x \<in> set (timesheets d). timesheets_id x = i \<longrightarrow> week_of x = week_of ts'"
    by (simp add: timesheets_keyed_def)
  from keys_invariant[OF inv update_timesheets_keys[OF up this]] show ?thesis .
qed

lemma recompute_stored_invariant:
  assumes inv: "timesheets_keyed d \<and> timesheets_unique d"
    and "recompute_stored d i = Inr d'"
  shows "timesheets_keyed d' \<and> timesheets_unique d'"
proof -
  from assms(2) obtain ts where f: "find (\<lambda>t. timesheets_id t = i) (timesheets d) = Some ts"
    and rc: "recompute d ts = Inr d'"
    unfolding recompute_stored_def by (auto split: option.splits)
  from find_in[OF f] have ts: "ts \<in> set (timesheets d)" by simp
  from keyed_same[OF _ ts] inv have
    "\<forall>x \<in> set (timesheets d). timesheets_id x = timesheets_id ts \<longrightarrow> week_of x = week_of ts"
    by (simp add: timesheets_keyed_def)
  from keys_invariant[OF inv recompute_keys[OF rc this]] show ?thesis .
qed

lemma delete_entry_invariant:
  assumes inv: "timesheets_keyed d \<and> timesheets_unique d"
    and "delete_entry d entry_id requester = Inr d'"
  shows "timesheets_keyed d' \<and> timesheets_unique d'"
proof -
  define d1 where "d1 = d\<lparr>time_entries :=
             filter (\<lambda>x. time_entries_id x \<noteq> entry_id) (time_entries d)\<rparr>"
  from assms(2) obtain P where rc: "recompute_each d1 (filter P (timesheets d1)) = Inr d'"
    unfolding delete_entry_def delete_time_entries_def stored_def d1_def
    by (auto split: option.splits if_splits)
  have same: "timesheets d1 = timesheets d" by (simp add: d1_def)
  have "\<forall>ts \<in> set (filter P (timesheets d1)). \<forall>x \<in> set (timesheets d1).
           timesheets_id x = timesheets_id ts \<longrightarrow> week_of x = week_of ts"
  proof
    fix ts assume "ts \<in> set (filter P (timesheets d1))"
    then have "ts \<in> set (timesheets d1)" by simp
    from keyed_same[OF _ this] inv same
    show "\<forall>x \<in> set (timesheets d1). timesheets_id x = timesheets_id ts \<longrightarrow> week_of x = week_of ts"
      by (simp add: timesheets_keyed_def)
  qed
  from recompute_each_keys[OF rc this] same
  have "map (\<lambda>t. (timesheets_id t, week_of t)) (timesheets d') =
        map (\<lambda>t. (timesheets_id t, week_of t)) (timesheets d)"
    by simp
  from keys_invariant[OF inv this] show ?thesis .
qed

text \<open>
  Claim C3. On a store in which no two timesheets share a user and a week start (and,
  as the primary key has it, none share an id), every operation of the core leaves a
  store of which the same holds: \<open>ensureDraft\<close> creates a timesheet only when it finds
  none for the user and week, and every other operation leaves the user and the week
  start of each timesheet as they were.
\<close>

theorem timesheet_per_week_invariant:
  assumes "timesheets_keyed d \<and> timesheets_unique d" and "perform d op = Inr d'"
  shows "timesheets_keyed d' \<and> timesheets_unique d'"
proof (cases op)
  case (Start new_id user project task now)
  with assms(2) have "timesheets d' = timesheets d"
    by (auto simp: start_def split: option.splits dest!: stored_Inr insert_timer_sessions_frame)
  from same_invariant[OF assms(1) this] show ?thesis .
next
  case (Heartbeat user now)
  with assms(2) have "timesheets d' = timesheets d"
    by (auto simp: heartbeat_def split: option.splits dest!: stored_Inr update_timer_sessions_frame)
  from same_invariant[OF assms(1) this] show ?thesis .
next
  case (Stop new_id user now)
  with assms(2) have "timesheets d' = timesheets d"
    by (auto simp: stop_def split: option.splits dest!: terminate_timesheets)
  from same_invariant[OF assms(1) this] show ?thesis .
next
  case (Reap new_id now threshold)
  with assms(2) have "timesheets d' = timesheets d"
    by (auto simp: reap_def dest!: reap_each_timesheets)
  from same_invariant[OF assms(1) this] show ?thesis .
next
  case (RecordManual new_id user project task start_time end_time memo now)
  with assms(2) have "timesheets d' = timesheets d"
    by (auto simp: recordManual_def split: if_splits
        dest!: stored_Inr insert_time_entries_result)
  from same_invariant[OF assms(1) this] show ?thesis .
next
  case (DeleteEntry entry_id requester)
  with assms(2) have "delete_entry d entry_id requester = Inr d'" by simp
  from delete_entry_invariant[OF assms(1) this] show ?thesis .
next
  case (EnsureDraft new_id user week_start now)
  with assms(2) have "ensureDraft d new_id user week_start now = Inr d'" by simp
  from ensureDraft_invariant[OF assms(1) this] show ?thesis .
next
  case (Recompute i)
  with assms(2) have "recompute_stored d i = Inr d'" by simp
  from recompute_stored_invariant[OF assms(1) this] show ?thesis .
next
  case (Transit i tr)
  with assms(2) have "transit_stored d i tr = Inr d'" by simp
  from transit_stored_invariant[OF assms(1) this] show ?thesis .
qed

text \<open>
  \<open>ensureDraft\<close> for the week user 2 already has a timesheet for recomputes that
  timesheet; for another week it adds one.
\<close>

theorem timesheet_per_week_invariant_witness:
  "(timesheets_keyed busy_db \<and> timesheets_unique busy_db) \<and>
   perform busy_db (EnsureDraft 11 2 0 50) = Inr (attempt_op busy_db (EnsureDraft 11 2 0 50)) \<and>
   map (\<lambda>t. (timesheets_id t, week_of t)) (timesheets (attempt_op busy_db (EnsureDraft 11 2 0 50)))
     = [(10, 2, 0)] \<and>
   timesheets_unique (attempt_op busy_db (EnsureDraft 11 2 0 50)) \<and>
   perform busy_db (EnsureDraft 11 2 7 50) = Inr (attempt_op busy_db (EnsureDraft 11 2 7 50)) \<and>
   map (\<lambda>t. (timesheets_id t, week_of t)) (timesheets (attempt_op busy_db (EnsureDraft 11 2 7 50)))
     = [(10, 2, 0), (11, 2, 7)] \<and>
   timesheets_unique (attempt_op busy_db (EnsureDraft 11 2 7 50))"
proof -
  have inv: "timesheets_keyed busy_db \<and> timesheets_unique busy_db"
    by (simp add: busy_db_value timesheets_keyed_def timesheets_unique_def)
  have p1: "perform busy_db (EnsureDraft 11 2 0 50) =
      Inr (attempt_op busy_db (EnsureDraft 11 2 0 50))"
    by (simp add: busy_db_value core_eval store_eval sample_eval)
  have p2: "perform busy_db (EnsureDraft 11 2 7 50) =
      Inr (attempt_op busy_db (EnsureDraft 11 2 7 50))"
    by (simp add: busy_db_value core_eval store_eval sample_eval)
  have e1: "map (\<lambda>t. (timesheets_id t, week_of t))
      (timesheets (attempt_op busy_db (EnsureDraft 11 2 0 50))) = [(10, 2, 0)]"
    by (simp add: busy_db_value core_eval store_eval sample_eval week_of_def)
  have e2: "map (\<lambda>t. (timesheets_id t, week_of t))
      (timesheets (attempt_op busy_db (EnsureDraft 11 2 7 50))) = [(10, 2, 0), (11, 2, 7)]"
    by (simp add: busy_db_value core_eval store_eval sample_eval week_of_def)
  from timesheet_per_week_invariant[OF inv p1] timesheet_per_week_invariant[OF inv p2]
    inv p1 p2 e1 e2
  show ?thesis by simp
qed

text \<open>
  The store alone does not give this: \<open>idx_timesheets_week\<close> is a plain index on
  \<open>(week_start, week_end)\<close>, so a second timesheet for the same user and week is
  accepted.
\<close>

lemma store_accepts_second_timesheet:
  "map (\<lambda>t. (timesheets_id t, week_of t))
     (timesheets (run busy_db [InsertTimesheets (sample_timesheet\<lparr>timesheets_id := 11\<rparr>)])) =
     [(10, 2, 0), (11, 2, 0)]"
  by (simp add: busy_db_value store_eval sample_eval week_of_def)

subsection \<open>The approval state machine\<close>

text \<open>
  Claim C4. A transition that succeeds takes the status along one of the four edges
  draft to submitted, submitted to approved, submitted to denied, denied to draft, and
  each of the four can be taken; \<open>review\<close> of a timesheet whose status is not submitted
  fails with ConflictError; and every transition attempted from approved fails with
  ConflictError.
\<close>

theorem approval_state_machine:
  "(transit ts tr = Inr ts' \<longrightarrow>
      (timesheets_status ts, timesheets_status ts') \<in>
        {(''draft'', ''submitted''), (''submitted'', ''approved''),
         (''submitted'', ''denied''), (''denied'', ''draft'')}) \<and>
   (timesheets_status ts = ''draft'' \<longrightarrow>
      (\<exists>ts'. transit ts (DoSubmit now) = Inr ts' \<and> timesheets_status ts' = ''submitted'')) \<and>
   (timesheets_status ts = ''submitted'' \<longrightarrow>
      (\<exists>ts'. transit ts (DoReview reviewer Approve comment now) = Inr ts' \<and>
             timesheets_status ts' = ''approved'') \<and>
      (\<exists>ts'. transit ts (DoReview reviewer Deny (Some why) now) = Inr ts' \<and>
             timesheets_status ts' = ''denied'')) \<and>
   (timesheets_status ts = ''denied'' \<longrightarrow>
      (\<exists>ts'. transit ts DoReopen = Inr ts' \<and> timesheets_status ts' = ''draft'')) \<and>
   (timesheets_status ts \<noteq> ''submitted'' \<longrightarrow>
      review ts reviewer dec comment now = Inl ConflictError) \<and>
   (timesheets_status ts = ''approved'' \<longrightarrow> transit ts tr = Inl ConflictError)"
proof -
  have 1: "transit ts tr = Inr ts' \<longrightarrow>
      (timesheets_status ts, timesheets_status ts') \<in>
        {(''draft'', ''submitted''), (''submitted'', ''approved''),
         (''submitted'', ''denied''), (''denied'', ''draft'')}"
    by (cases tr) (auto simp: submit_def review_def reopen_def split: if_splits)
  have 2: "timesheets_status ts = ''draft'' \<longrightarrow>
      (\<exists>ts'. transit ts (DoSubmit now) = Inr ts' \<and> timesheets_status ts' = ''submitted'')"
    by (simp add: submit_def)
  have 3: "timesheets_status ts = ''submitted'' \<longrightarrow>
      (\<exists>ts'. transit ts (DoReview reviewer Approve comment now) = Inr ts' \<and>
             timesheets_status ts' = ''approved'') \<and>
      (\<exists>ts'. transit ts (DoReview reviewer Deny (Some why) now) = Inr ts' \<and>
             timesheets_status ts' = ''denied'')"
    by (simp add: review_def)
  have 4: "timesheets_status ts = ''denied'' \<longrightarrow>
      (\<exists>ts'. transit ts DoReopen = Inr ts' \<and> timesheets_status ts' = ''draft'')"
    by (simp add: reopen_def)
  have 5: "timesheets_status ts \<noteq> ''submitted'' \<longrightarrow>
      review ts reviewer dec comment now = Inl ConflictError"
    by (simp add: review_def)
  have 6: "timesheets_status ts = ''approved'' \<longrightarrow> transit ts tr = Inl ConflictError"
    by (cases tr) (simp_all add: submit_def review_def reopen_def)
  from 1 2 3 4 5 6 show ?thesis by blast
qed

text \<open>
  The workflow of the specification's scenario: a draft is submitted, denied with a
  comment, reopened; a review that follows without a submit is a ConflictError, and so
  is any transition from approved.
\<close>

theorem approval_state_machine_witness:
  "timesheets_status sample_timesheet = ''draft'' \<and>
   transit sample_timesheet (DoSubmit 5) =
     Inr (sample_timesheet\<lparr>timesheets_status := ''submitted'',
                           timesheets_submitted_at := Some 5\<rparr>) \<and>
   review sample_timesheet 1 Deny (Some ''fix dates'') 9 = Inl ConflictError \<and>
   (\<exists>ts'. transit (sample_timesheet\<lparr>timesheets_status := ''denied''\<rparr>) DoReopen = Inr ts' \<and>
          timesheets_status ts' = ''draft'') \<and>
   transit (sample_timesheet\<lparr>timesheets_status := ''approved''\<rparr>) DoReopen =
     Inl ConflictError"
proof -
  have d: "timesheets_status sample_timesheet = ''draft''"
    by (simp add: sample_timesheet_def)
  have s: "transit sample_timesheet (DoSubmit 5) =
     Inr (sample_timesheet\<lparr>timesheets_status := ''submitted'',
                           timesheets_submitted_at := Some 5\<rparr>)"
    by (simp add: submit_def d)
  from approval_state_machine[where ts = sample_timesheet and tr = "DoSubmit 5"
      and ts' = "sample_timesheet\<lparr>timesheets_status := ''submitted'',
                                  timesheets_submitted_at := Some 5\<rparr>"
      and reviewer = 1 and dec = Deny and comment = "Some ''fix dates''" and now = 9]
    approval_state_machine[where ts = "sample_timesheet\<lparr>timesheets_status := ''denied''\<rparr>"
      and tr = DoReopen]
    approval_state_machine[where ts = "sample_timesheet\<lparr>timesheets_status := ''approved''\<rparr>"
      and tr = DoReopen]
    d s
  show ?thesis by simp
qed

subsection \<open>Deleting a user\<close>

lemma null_related_user: "notifications_user_id (null_related gone n) = notifications_user_id n"
  by (simp add: null_related_def split: option.splits)

lemma null_related_eq:
  "null_related gone n =
     (if \<exists>t \<in> set gone. notifications_related_timesheet_id n = Some t
      then n\<lparr>notifications_related_timesheet_id := None\<rparr> else n)"
  by (auto simp: null_related_def split: option.splits)

text \<open>
  Claim C5, as amended. When the store accepts the deletion of a user, no time entry,
  timer session, timesheet or notification of that user is left, and the user's row is
  gone; the time entries, timer sessions and timesheets of the other users are as they
  were, and so are their notifications except that \<open>related_timesheet_id\<close> is null
  in those that referred to a timesheet of the deleted user; projects and tasks are as
  they were.
\<close>

theorem delete_users_cascade:
  assumes "has_users d u" and "delete_users d u = Inr d'"
  shows "\<not> has_users d' u \<and>
         u \<notin> set (map time_entries_user_id (time_entries d')) \<and>
         u \<notin> set (map timer_sessions_user_id (timer_sessions d')) \<and>
         u \<notin> set (map timesheets_user_id (timesheets d')) \<and>
         u \<notin> set (map notifications_user_id (notifications d')) \<and>
         users d' = filter (\<lambda>x. users_id x \<noteq> u) (users d) \<and>
         projects d' = projects d \<and> tasks d' = tasks d \<and>
         time_entries d' = filter (\<lambda>e. time_entries_user_id e \<noteq> u) (time_entries d) \<and>
         timer_sessions d' = filter (\<lambda>s. timer_sessions_user_id s \<noteq> u) (timer_sessions d) \<and>
         timesheets d' = filter (\<lambda>t. timesheets_user_id t \<noteq> u) (timesheets d) \<and>
         notifications d' =
           map (\<lambda>n. if \<exists>t \<in> set (timesheets d). timesheets_user_id t = u \<and>
                         notifications_related_timesheet_id n = Some (timesheets_id t)
                     then n\<lparr>notifications_related_timesheet_id := None\<rparr> else n)
             (filter (\<lambda>n. notifications_user_id n \<noteq> u) (notifications d))"
proof -
  note r = delete_users_result[OF assms]
  have 1: "\<not> has_users d' u" by (auto simp: r has_users_def)
  have 2: "u \<notin> set (map time_entries_user_id (time_entries d'))" by (auto simp: r)
  have 3: "u \<notin> set (map timer_sessions_user_id (timer_sessions d'))" by (auto simp: r)
  have 4: "u \<notin> set (map timesheets_user_id (timesheets d'))" by (auto simp: r)
  have 5: "u \<notin> set (map notifications_user_id (notifications d'))"
    by (auto simp: r null_related_user)
  have 6: "users d' = filter (\<lambda>x. users_id x \<noteq> u) (users d)"
    and 7: "projects d' = projects d" and 8: "tasks d' = tasks d"
    and 9: "time_entries d' = filter (\<lambda>e. time_entries_user_id e \<noteq> u) (time_entries d)"
    and 10: "timer_sessions d' = filter (\<lambda>s. timer_sessions_user_id s \<noteq> u) (timer_sessions d)"
    and 11: "timesheets d' = filter (\<lambda>t. timesheets_user_id t \<noteq> u) (timesheets d)"
    by (simp_all add: r)
  have "null_related (map timesheets_id (filter (\<lambda>t. timesheets_user_id t = u) (timesheets d))) =
        (\<lambda>n. if \<exists>t \<in> set (timesheets d). timesheets_user_id t = u \<and>
                         notifications_related_timesheet_id n = Some (timesheets_id t)
                     then n\<lparr>notifications_related_timesheet_id := None\<rparr> else n)"
    by (rule ext) (auto simp: null_related_eq)
  then have 12: "notifications d' =
           map (\<lambda>n. if \<exists>t \<in> set (timesheets d). timesheets_user_id t = u \<and>
                         notifications_related_timesheet_id n = Some (timesheets_id t)
                     then n\<lparr>notifications_related_timesheet_id := None\<rparr> else n)
             (filter (\<lambda>n. notifications_user_id n \<noteq> u) (notifications d))"
    by (simp add: r)
  from 1 2 3 4 5 6 7 8 9 10 11 12 show ?thesis by blast
qed

text \<open>
  The claim as stated fails: notification 20 belongs to user 1 and refers to timesheet
  10 of user 2; deleting user 2 succeeds and changes it.
\<close>

theorem delete_users_nulls_other_users_reference:
  "map (\<lambda>n. (notifications_id n, notifications_user_id n, notifications_related_timesheet_id n))
     (notifications busy_db) = [(20, 1, Some 10), (21, 2, Some 10)] \<and>
   delete_users busy_db 2 = Inr (attempt busy_db (DeleteUsers 2)) \<and>
   map (\<lambda>n. (notifications_id n, notifications_user_id n, notifications_related_timesheet_id n))
     (notifications (attempt busy_db (DeleteUsers 2))) = [(20, 1, None)]"
  by (simp add: busy_db_value store_eval sample_eval)

theorem delete_users_cascade_witness:
  "has_users busy_db 2 \<and>
   delete_users busy_db 2 = Inr (attempt busy_db (DeleteUsers 2)) \<and>
   map users_id (users (attempt busy_db (DeleteUsers 2))) = [1] \<and>
   time_entries (attempt busy_db (DeleteUsers 2)) = [] \<and>
   timer_sessions (attempt busy_db (DeleteUsers 2)) = [] \<and>
   timesheets (attempt busy_db (DeleteUsers 2)) = [] \<and>
   notifications (attempt busy_db (DeleteUsers 2)) =
     [(sample_notification 20 1)\<lparr>notifications_related_timesheet_id := None\<rparr>]"
proof -
  have h: "has_users busy_db 2"
    by (simp add: busy_db_value store_eval)
  have r: "delete_users busy_db 2 = Inr (attempt busy_db (DeleteUsers 2))"
    by (simp add: busy_db_value store_eval sample_eval)
  have b: "users busy_db = [default_admin 1 0, default_employee 2 0]"
    "time_entries busy_db = [sample_entry]" "timer_sessions busy_db = [sample_session 100]"
    "timesheets busy_db = [sample_timesheet]"
    "notifications busy_db = [sample_notification 20 1, sample_notification 21 2]"
    by (simp_all add: busy_db_value)
  from delete_users_cascade[OF h r] h r show ?thesis
    by (simp add: b store_eval sample_eval)
qed

subsection \<open>Deleting a project\<close>

lemma delete_projects_result:
  assumes "has_projects d p" and "delete_projects d p = Inr d'"
  shows "d' = d\<lparr>projects := filter (\<lambda>x. projects_id x \<noteq> p) (projects d),
               tasks := filter (\<lambda>t. tasks_project_id t \<noteq> p) (tasks d)\<rparr>"
  using assms by (simp add: delete_projects_def Let_def split: if_splits)

text \<open>
  Claim C6. When the store accepts the deletion of a project, the project and every
  task that belongs to it are gone and the other tasks are as they were; and while a
  time entry refers to the project, the deletion is refused with a foreign-key
  violation.
\<close>

theorem delete_projects_cascade_restrict:
  assumes "has_projects d p"
  shows "(delete_projects d p = Inr d' \<longrightarrow>
            \<not> has_projects d' p \<and> p \<notin> set (map tasks_project_id (tasks d')) \<and>
            tasks d' = filter (\<lambda>t. tasks_project_id t \<noteq> p) (tasks d)) \<and>
         (p \<in> set (map time_entries_project_id (time_entries d)) \<longrightarrow>
            delete_projects d p = Inl ForeignKeyViolation)"
proof (intro conjI impI)
  assume a: "delete_projects d p = Inr d'"
  note r = delete_projects_result[OF assms a]
  show "\<not> has_projects d' p" by (auto simp: r has_projects_def)
  show "p \<notin> set (map tasks_project_id (tasks d'))" by (auto simp: r)
  show "tasks d' = filter (\<lambda>t. tasks_project_id t \<noteq> p) (tasks d)" by (simp add: r)
next
  assume "p \<in> set (map time_entries_project_id (time_entries d))"
  with assms show "delete_projects d p = Inl ForeignKeyViolation"
    by (simp add: delete_projects_def Let_def)
qed

theorem delete_projects_cascade_restrict_witness:
  "has_projects sample_db 5 \<and>
   delete_projects sample_db 5 = Inr (attempt sample_db (DeleteProjects 5)) \<and>
   tasks sample_db = [sample_task] \<and> tasks (attempt sample_db (DeleteProjects 5)) = [] \<and>
   has_projects busy_db 5 \<and>
   5 \<in> set (map time_entries_project_id (time_entries busy_db)) \<and>
   delete_projects busy_db 5 = Inl ForeignKeyViolation"
proof -
  have h1: "has_projects sample_db 5"
    by (simp add: sample_db_value store_eval sample_eval)
  have r1: "delete_projects sample_db 5 = Inr (attempt sample_db (DeleteProjects 5))"
    by (simp add: sample_db_value store_eval sample_eval)
  have t1: "tasks sample_db = [sample_task]"
    by (simp add: sample_db_value)
  have h2: "has_projects busy_db 5"
    by (simp add: busy_db_value store_eval sample_eval)
  have e2: "5 \<in> set (map time_entries_project_id (time_entries busy_db))"
    by (simp add: busy_db_value sample_eval)
  from delete_projects_cascade_restrict[OF h1, of "attempt sample_db (DeleteProjects 5)"]
    delete_projects_cascade_restrict[OF h2] h1 r1 t1 h2 e2
  show ?thesis by (simp add: sample_task_def)
qed

subsection \<open>Deleting a timesheet\<close>

text \<open>
  A timesheet leaves the store in two ways: by its own \<open>DELETE\<close>, and with its user, whose
  deletion cascades to the user's timesheets and to the user's notifications alike.
\<close>

lemma delete_timesheets_result:
  assumes "has_timesheets d t"
  shows "\<exists>d'. delete_timesheets d t = Inr d' \<and> \<not> has_timesheets d' t \<and>
           notifications d' =
             map (\<lambda>n. if notifications_related_timesheet_id n = Some t
                       then n\<lparr>notifications_related_timesheet_id := None\<rparr> else n)
               (notifications d)"
proof -
  have "null_related [t] =
          (\<lambda>n. if notifications_related_timesheet_id n = Some t
                then n\<lparr>notifications_related_timesheet_id := None\<rparr> else n)"
    by (rule ext) (simp add: null_related_eq)
  moreover have "t \<notin> set (map timesheets_id (filter (\<lambda>x. timesheets_id x \<noteq> t) (timesheets d)))"
    by auto
  ultimately show ?thesis
    using assms by (simp add: delete_timesheets_def has_timesheets_def)
qed

lemma delete_users_notifications:
  assumes "has_users d u" and "delete_users d u = Inr d'"
  shows "u \<notin> set (map timesheets_user_id (timesheets d')) \<and>
         u \<notin> set (map notifications_user_id (notifications d')) \<and>
         notifications d' =
           map (\<lambda>n. if \<exists>t \<in> set (timesheets d). timesheets_user_id t = u \<and>
                         notifications_related_timesheet_id n = Some (timesheets_id t)
                     then n\<lparr>notifications_related_timesheet_id := None\<rparr> else n)
             (filter (\<lambda>n. notifications_user_id n \<noteq> u) (notifications d))"
proof -
  note r = delete_users_result[OF assms]
  have 1: "u \<notin> set (map timesheets_user_id (timesheets d'))" by (auto simp: r)
  have 2: "u \<notin> set (map notifications_user_id (notifications d'))"
    by (auto simp: r null_related_user)
  have "null_related (map timesheets_id (filter (\<lambda>t. timesheets_user_id t = u) (timesheets d))) =
        (\<lambda>n. if \<exists>t \<in> set (timesheets d). timesheets_user_id t = u \<and>
                         notifications_related_timesheet_id n = Some (timesheets_id t)
                     then n\<lparr>notifications_related_timesheet_id := None\<rparr> else n)"
    by (rule ext) (auto simp: null_related_eq)
  then have 3: "notifications d' =
           map (\<lambda>n. if \<exists>t \<in> set (timesheets d). timesheets_user_id t = u \<and>
                         notifications_related_timesheet_id n = Some (timesheets_id t)
                     then n\<lparr>notifications_related_timesheet_id := None\<rparr> else n)
             (filter (\<lambda>n. notifications_user_id n \<noteq> u) (notifications d))"
    by (simp add: r)
  from 1 2 3 show ?thesis by blast
qed

lemma timesheets_removed_only_by_delete:
  assumes "execute d s = Inr d'" and "has_timesheets d t" and "\<not> has_timesheets d' t"
  shows "s = DeleteTimesheets t \<or> (\<exists>u. s = DeleteUsers u \<and> has_users d u)"
proof (cases s)
  case (InsertUsers r)
  with assms show ?thesis by (auto simp: insert_users_def has_timesheets_def split: sum.splits if_splits)
next
  case (InsertProjects r)
  with assms show ?thesis by (auto simp: insert_projects_def has_timesheets_def split: sum.splits if_splits)
next
  case (InsertTasks r)
  with assms show ?thesis by (auto simp: insert_tasks_def has_timesheets_def split: sum.splits if_splits)
next
  case (InsertTimeEntries r)
  with assms show ?thesis by (auto simp: insert_time_entries_def has_timesheets_def split: sum.splits if_splits)
next
  case (InsertTimerSessions r)
  with assms show ?thesis by (auto simp: insert_timer_sessions_def has_timesheets_def split: sum.splits if_splits)
next
  case (InsertTimesheets r)
  with assms show ?thesis by (auto simp: insert_timesheets_def has_timesheets_def split: sum.splits if_splits)
next
  case (InsertNotifications r)
  with assms show ?thesis by (auto simp: insert_notifications_def has_timesheets_def split: sum.splits if_splits)
next
  case (UpdateUsers i r)
  with assms show ?thesis by (auto simp: update_users_def has_timesheets_def split: sum.splits if_splits)
next
  case (UpdateProjects i r)
  with assms show ?thesis by (auto simp: update_projects_def has_timesheets_def split: sum.splits if_splits)
next
  case (UpdateTasks i r)
  with assms show ?thesis by (auto simp: update_tasks_def has_timesheets_def split: sum.splits if_splits)
next
  case (UpdateTimeEntries i r)
  with assms show ?thesis by (auto simp: update_time_entries_def has_timesheets_def split: sum.splits if_splits)
next
  case (UpdateTimerSessions i r)
  with assms show ?thesis by (auto simp: update_timer_sessions_def has_timesheets_def split: sum.splits if_splits)
next
  case (UpdateTimesheets i r)
  show ?thesis
  proof (cases "has_timesheets d i")
    case False
    with UpdateTimesheets assms show ?thesis by (simp add: update_timesheets_def)
  next
    case True
    with UpdateTimesheets assms(1) obtain v where v: "timesheets_value (r\<lparr>timesheets_id := i\<rparr>) = Inr v"
      and d': "timesheets d' = map (\<lambda>x. if timesheets_id x = i then v else x) (timesheets d)"
      by (auto simp: update_timesheets_def split: sum.splits if_splits)
    from v have "timesheets_id v = i"
      unfolding timesheets_value_def Let_def by (auto split: if_splits)
    then have "map timesheets_id (timesheets d') = map timesheets_id (timesheets d)"
      unfolding d' by (induction "timesheets d") auto
    with assms(2,3) show ?thesis by (simp add: has_timesheets_def)
  qed
next
  case (UpdateNotifications i r)
  with assms show ?thesis by (auto simp: update_notifications_def has_timesheets_def split: sum.splits if_splits)
next
  case (DeleteUsers u)
  show ?thesis
  proof (cases "has_users d u")
    case True
    with DeleteUsers show ?thesis by simp
  next
    case False
    with DeleteUsers assms show ?thesis by (simp add: delete_users_def)
  qed
next
  case (DeleteProjects i)
  with assms show ?thesis by (auto simp: delete_projects_def Let_def has_timesheets_def split: if_splits)
next
  case (DeleteTasks i)
  with assms show ?thesis by (auto simp: delete_tasks_def has_timesheets_def split: if_splits)
next
  case (DeleteTimeEntries i)
  with assms show ?thesis by (auto simp: delete_time_entries_def has_timesheets_def)
next
  case (DeleteTimerSessions i)
  with assms show ?thesis by (auto simp: delete_timer_sessions_def has_timesheets_def)
next
  case (DeleteTimesheets i)
  show ?thesis
  proof (cases "i = t")
    case True
    with DeleteTimesheets show ?thesis by simp
  next
    case False
    with DeleteTimesheets assms show ?thesis
      by (auto simp: delete_timesheets_def has_timesheets_def split: if_splits)
  qed
next
  case (DeleteNotifications i)
  with assms show ?thesis by (auto simp: delete_notifications_def has_timesheets_def)
qed

text \<open>
  The store drops a notification together with the timesheet it refers to. In the sample
  store, notification 21 belongs to user 2 and refers to timesheet 10, which is user 2's;
  the deletion of user 2 is accepted, removes timesheet 10, and leaves no notification
  21: the row did not survive with a null reference.
\<close>

theorem user_cascade_deletes_own_notification:
  "map (\<lambda>n. (notifications_id n, notifications_user_id n, notifications_related_timesheet_id n))
     (notifications busy_db) = [(20, 1, Some 10), (21, 2, Some 10)] \<and>
   map timesheets_id (timesheets busy_db) = [10] \<and>
   delete_users busy_db 2 = Inr (attempt busy_db (DeleteUsers 2)) \<and>
   timesheets (attempt busy_db (DeleteUsers 2)) = [] \<and>
   \<not> has_notifications (attempt busy_db (DeleteUsers 2)) 21"
  by (simp add: busy_db_value store_eval sample_eval)

text \<open>
  Claim C7, as amended. The \<open>DELETE\<close> of a timesheet always succeeds and leaves every
  notification in place, in order: one that referred to the timesheet has its
  \<open>related_timesheet_id\<close> set to null and its other columns unchanged, and every other
  notification is unchanged. When the store accepts the deletion of a user, the user's
  timesheets and the user's own notifications are removed, and the notifications of the
  other users are left in place, in order, with \<open>related_timesheet_id\<close> set to null in
  those that referred to one of the removed timesheets and nothing else changed. No
  other statement of the store removes a timesheet.
\<close>

theorem timesheet_deletion_nulls_reference:
  "(has_timesheets d t \<longrightarrow>
      (\<exists>d'. delete_timesheets d t = Inr d' \<and> \<not> has_timesheets d' t \<and>
         notifications d' =
           map (\<lambda>n. if notifications_related_timesheet_id n = Some t
                     then n\<lparr>notifications_related_timesheet_id := None\<rparr> else n)
             (notifications d))) \<and>
   (has_users d u \<and> delete_users d u = Inr d' \<longrightarrow>
      u \<notin> set (map timesheets_user_id (timesheets d')) \<and>
      u \<notin> set (map notifications_user_id (notifications d')) \<and>
      notifications d' =
        map (\<lambda>n. if \<exists>t \<in> set (timesheets d). timesheets_user_id t = u \<and>
                      notifications_related_timesheet_id n = Some (timesheets_id t)
                  then n\<lparr>notifications_related_timesheet_id := None\<rparr> else n)
          (filter (\<lambda>n. notifications_user_id n \<noteq> u) (notifications d))) \<and>
   (execute d s = Inr d'' \<and> has_timesheets d t \<and> \<not> has_timesheets d'' t \<longrightarrow>
      s = DeleteTimesheets t \<or> (\<exists>u. s = DeleteUsers u \<and> has_users d u))"
  using delete_timesheets_result[of d t] delete_users_notifications[of d u d']
    timesheets_removed_only_by_delete[of d s d'' t]
  by blast

text \<open>
  The sample store has timesheet 10 of user 2, and notifications 20 (of user 1) and 21
  (of user 2) that both refer to it. Deleting the timesheet keeps both notifications,
  with the reference null; deleting user 2 keeps notification 20 alone, with the
  reference null.
\<close>

theorem timesheet_deletion_nulls_reference_witness:
  "has_timesheets busy_db 10 \<and>
   delete_timesheets busy_db 10 = Inr (attempt busy_db (DeleteTimesheets 10)) \<and>
   timesheets (attempt busy_db (DeleteTimesheets 10)) = [] \<and>
   notifications (attempt busy_db (DeleteTimesheets 10)) =
     [(sample_notification 20 1)\<lparr>notifications_related_timesheet_id := None\<rparr>,
      (sample_notification 21 2)\<lparr>notifications_related_timesheet_id := None\<rparr>] \<and>
   has_users busy_db 2 \<and>
   delete_users busy_db 2 = Inr (attempt busy_db (DeleteUsers 2)) \<and>
   notifications (attempt busy_db (DeleteUsers 2)) =
     [(sample_notification 20 1)\<lparr>notifications_related_timesheet_id := None\<rparr>] \<and>
   execute busy_db (DeleteUsers 2) = Inr (attempt busy_db (DeleteUsers 2)) \<and>
   \<not> has_timesheets (attempt busy_db (DeleteUsers 2)) 10"
proof -
  have h: "has_timesheets busy_db 10"
    by (simp add: busy_db_value store_eval sample_eval)
  have r: "delete_timesheets busy_db 10 = Inr (attempt busy_db (DeleteTimesheets 10))"
    by (simp add: busy_db_value store_eval sample_eval)
  have t: "timesheets (attempt busy_db (DeleteTimesheets 10)) = []"
    by (simp add: busy_db_value store_eval sample_eval)
  have n: "notifications busy_db = [sample_notification 20 1, sample_notification 21 2]"
    "timesheets busy_db = [sample_timesheet]"
    by (simp_all add: busy_db_value)
  have hu: "has_users busy_db 2"
    by (simp add: busy_db_value store_eval)
  have ru: "delete_users busy_db 2 = Inr (attempt busy_db (DeleteUsers 2))"
    by (simp add: busy_db_value store_eval sample_eval)
  have e: "execute busy_db (DeleteUsers 2) = Inr (attempt busy_db (DeleteUsers 2))"
    using ru by simp
  have g: "\<not> has_timesheets (attempt busy_db (DeleteUsers 2)) 10"
    by (simp add: busy_db_value store_eval sample_eval)
  from timesheet_deletion_nulls_reference[where d = busy_db and t = 10 and u = 2
      and d' = "attempt busy_db (DeleteUsers 2)" and s = "DeleteUsers 2"
      and d'' = "attempt busy_db (DeleteUsers 2)"] h r t hu ru e g
  show ?thesis
    by (auto simp: n sample_notification_def sample_timesheet_def)
qed

subsection \<open>The enumerated columns\<close>

lemma users_value_enums:
  "users_value r = Inr v \<Longrightarrow>
     users_role v \<in> {''admin'', ''employee''} \<and> users_status v \<in> {''active'', ''inactive''}"
  unfolding users_value_def Let_def by (auto split: if_splits)

lemma time_entries_value_enums:
  "time_entries_value r = Inr v \<Longrightarrow> time_entries_entry_type v \<in> {''timer'', ''manual''}"
  unfolding time_entries_value_def Let_def by (auto split: if_splits)

lemma timesheets_value_enums:
  "timesheets_value r = Inr v \<Longrightarrow>
     timesheets_status v \<in> {''draft'', ''submitted'', ''approved'', ''denied''}"
  unfolding timesheets_value_def Let_def by (auto split: if_splits)

lemma notifications_value_enums:
  "notifications_value r = Inr v \<Longrightarrow>
     notifications_type v \<in> {''timesheet_submitted'', ''timesheet_approved'', ''timesheet_denied''}"
  unfolding notifications_value_def Let_def by (auto split: if_splits)

lemma users_enums_append: "users_enums rs \<Longrightarrow> users_value r = Inr v \<Longrightarrow> users_enums (rs @ [v])"
  using users_value_enums[of r v] by (auto simp: users_enums_def)

lemma users_enums_replace:
  "users_enums rs \<Longrightarrow> users_value r = Inr v \<Longrightarrow> users_enums (map (\<lambda>x. if P x then v else x) rs)"
  using users_value_enums[of r v] by (auto simp: users_enums_def)

lemma users_enums_filter: "users_enums rs \<Longrightarrow> users_enums (filter P rs)"
  by (auto simp: users_enums_def)

lemma time_entries_enums_append:
  "time_entries_enums rs \<Longrightarrow> time_entries_value r = Inr v \<Longrightarrow> time_entries_enums (rs @ [v])"
  using time_entries_value_enums[of r v] by (auto simp: time_entries_enums_def)

lemma time_entries_enums_replace:
  "time_entries_enums rs \<Longrightarrow> time_entries_value r = Inr v \<Longrightarrow>
     time_entries_enums (map (\<lambda>x. if P x then v else x) rs)"
  using time_entries_value_enums[of r v] by (auto simp: time_entries_enums_def)

lemma time_entries_enums_filter: "time_entries_enums rs \<Longrightarrow> time_entries_enums (filter P rs)"
  by (auto simp: time_entries_enums_def)

lemma timesheets_enums_append:
  "timesheets_enums rs \<Longrightarrow> timesheets_value r = Inr v \<Longrightarrow> timesheets_enums (rs @ [v])"
  using timesheets_value_enums[of r v] by (auto simp: timesheets_enums_def)

lemma timesheets_enums_replace:
  "timesheets_enums rs \<Longrightarrow> timesheets_value r = Inr v \<Longrightarrow>
     timesheets_enums (map (\<lambda>x. if P x then v else x) rs)"
  using timesheets_value_enums[of r v] by (auto simp: timesheets_enums_def)

lemma timesheets_enums_filter: "timesheets_enums rs \<Longrightarrow> timesheets_enums (filter P rs)"
  by (auto simp: timesheets_enums_def)

lemma notifications_enums_append:
  "notifications_enums rs \<Longrightarrow> notifications_value r = Inr v \<Longrightarrow> notifications_enums (rs @ [v])"
  using notifications_value_enums[of r v] by (auto simp: notifications_enums_def)

lemma notifications_enums_replace:
  "notifications_enums rs \<Longrightarrow> notifications_value r = Inr v \<Longrightarrow>
     notifications_enums (map (\<lambda>x. if P x then v else x) rs)"
  using notifications_value_enums[of r v] by (auto simp: notifications_enums_def)

lemma notifications_enums_filter: "notifications_enums rs \<Longrightarrow> notifications_enums (filter P rs)"
  by (auto simp: notifications_enums_def)

lemma null_related_type: "notifications_type (null_related gone n) = notifications_type n"
  by (simp add: null_related_def split: option.splits)

lemma notifications_enums_null_related:
  "notifications_enums rs \<Longrightarrow> notifications_enums (map (null_related gone) rs)"
  by (auto simp: notifications_enums_def null_related_type)

lemmas enums_intros =
  users_enums_append users_enums_replace users_enums_filter
  time_entries_enums_append time_entries_enums_replace time_entries_enums_filter
  timesheets_enums_append timesheets_enums_replace timesheets_enums_filter
  notifications_enums_append notifications_enums_replace notifications_enums_filter
  notifications_enums_null_related

lemmas enums_filter_intros =
  users_enums_filter time_entries_enums_filter timesheets_enums_filter
  notifications_enums_filter notifications_enums_null_related

lemma enums_ok_execute:
  assumes "enums_ok d" and "execute d s = Inr d'"
  shows "enums_ok d'"
proof (cases s)
  case (InsertUsers r)
  with assms show ?thesis
    by (auto simp: enums_ok_def insert_users_def split: sum.splits if_splits intro: enums_intros)
next
  case (InsertProjects r)
  with assms show ?thesis
    by (auto simp: enums_ok_def insert_projects_def split: sum.splits if_splits)
next
  case (InsertTasks r)
  with assms show ?thesis
    by (auto simp: enums_ok_def insert_tasks_def split: sum.splits if_splits)
next
  case (InsertTimeEntries r)
  with assms show ?thesis
    by (auto simp: enums_ok_def insert_time_entries_def split: sum.splits if_splits intro: enums_intros)
next
  case (InsertTimerSessions r)
  with assms show ?thesis
    by (auto simp: enums_ok_def insert_timer_sessions_def split: sum.splits if_splits)
next
  case (InsertTimesheets r)
  with assms show ?thesis
    by (auto simp: enums_ok_def insert_timesheets_def split: sum.splits if_splits intro: enums_intros)
next
  case (InsertNotifications r)
  with assms show ?thesis
    by (auto simp: enums_ok_def insert_notifications_def split: sum.splits if_splits intro: enums_intros)
next
  case (UpdateUsers i r)
  with assms show ?thesis
    by (auto simp: enums_ok_def update_users_def split: sum.splits if_splits intro: enums_intros)
next
  case (UpdateProjects i r)
  with assms show ?thesis
    by (auto simp: enums_ok_def update_projects_def split: sum.splits if_splits)
next
  case (UpdateTasks i r)
  with assms show ?thesis
    by (auto simp: enums_ok_def update_tasks_def split: sum.splits if_splits)
next
  case (UpdateTimeEntries i r)
  with assms show ?thesis
    by (auto simp: enums_ok_def update_time_entries_def split: sum.splits if_splits intro: enums_intros)
next
  case (UpdateTimerSessions i r)
  with assms show ?thesis
    by (auto simp: enums_ok_def update_timer_sessions_def split: sum.splits if_splits)
next
  case (UpdateTimesheets i r)
  with assms show ?thesis
    by (auto simp: enums_ok_def update_timesheets_def split: sum.splits if_splits intro: enums_intros)
next
  case (UpdateNotifications i r)
  with assms show ?thesis
    by (auto simp: enums_ok_def update_notifications_def split: sum.splits if_splits intro: enums_intros)
next
  case (DeleteUsers i)
  with assms show ?thesis
    by (auto simp: enums_ok_def delete_users_def Let_def split: if_splits intro!: enums_filter_intros)
next
  case (DeleteProjects i)
  with assms show ?thesis
    by (auto simp: enums_ok_def delete_projects_def Let_def split: if_splits)
next
  case (DeleteTasks i)
  with assms show ?thesis
    by (auto simp: enums_ok_def delete_tasks_def split: if_splits)
next
  case (DeleteTimeEntries i)
  with assms show ?thesis
    by (auto simp: enums_ok_def delete_time_entries_def intro: enums_intros)
next
  case (DeleteTimerSessions i)
  with assms show ?thesis
    by (auto simp: enums_ok_def delete_timer_sessions_def)
next
  case (DeleteTimesheets i)
  with assms show ?thesis
    by (auto simp: enums_ok_def delete_timesheets_def split: if_splits intro!: enums_filter_intros)
next
  case (DeleteNotifications i)
  with assms show ?thesis
    by (auto simp: enums_ok_def delete_notifications_def intro: enums_intros)
qed

lemma enums_ok_attempt: "enums_ok d \<Longrightarrow> enums_ok (attempt d s)"
  by (auto simp: attempt_def split: sum.splits intro: enums_ok_execute)

lemma enums_ok_foldl: "enums_ok d \<Longrightarrow> enums_ok (foldl attempt d ss)"
  by (induction ss arbitrary: d) (simp_all add: enums_ok_attempt)

lemma enums_ok_empty: "enums_ok empty_db"
  by (simp add: enums_ok_def empty_db_def users_enums_def time_entries_enums_def
      timesheets_enums_def notifications_enums_def)

text \<open>
  Claim C8. Whatever statements are run on the store the schema creates, in every
  stored row \<open>users.role\<close> is admin or employee, \<open>users.status\<close> is active or inactive,
  \<open>timesheets.status\<close> is draft, submitted, approved or denied, \<open>notifications.type\<close> is
  timesheet_submitted, timesheet_approved or timesheet_denied, and
  \<open>time_entries.entry_type\<close> is timer or manual.
\<close>

theorem enumerated_fields_restricted: "enums_ok (run empty_db ss)"
  unfolding run_def by (rule enums_ok_foldl[OF enums_ok_empty])

text \<open>
  The seeded admin is stored; an employee whose role is written \<open>manager\<close> is not, and
  neither is a change of the admin's status to \<open>suspended\<close>.
\<close>

theorem enumerated_fields_restricted_witness:
  "enums_ok (run empty_db
     [InsertUsers (default_admin 1 0),
      InsertUsers ((default_employee 2 0)\<lparr>users_role := ''manager''\<rparr>),
      UpdateUsers 1 ((default_admin 1 0)\<lparr>users_status := ''suspended''\<rparr>)]) \<and>
   map (\<lambda>u. (users_id u, users_role u, users_status u))
     (users (run empty_db
       [InsertUsers (default_admin 1 0),
        InsertUsers ((default_employee 2 0)\<lparr>users_role := ''manager''\<rparr>),
        UpdateUsers 1 ((default_admin 1 0)\<lparr>users_status := ''suspended''\<rparr>)])) =
     [(1, ''admin'', ''active'')]"
  using enumerated_fields_restricted[of
      "[InsertUsers (default_admin 1 0),
        InsertUsers ((default_employee 2 0)\<lparr>users_role := ''manager''\<rparr>),
        UpdateUsers 1 ((default_admin 1 0)\<lparr>users_status := ''suspended''\<rparr>)]"]
  by (simp add: store_eval)

subsection \<open>The email of a user is a key\<close>

lemma distinct_map_replace:
  assumes "distinct (map k xs)" and "distinct (map f xs)" and "k v = i"
    and "f v \<notin> set (map f (filter (\<lambda>x. k x \<noteq> i) xs))"
  shows "distinct (map f (map (\<lambda>x. if k x = i then v else x) xs))"
  using assms
proof (induction xs)
  case Nil
  then show ?case by simp
next
  case (Cons x xs)
  define g where "g = (\<lambda>x. if k x = i then v else x)"
  from Cons.prems have kx: "k x \<notin> k ` set xs" and fx: "f x \<notin> f ` set xs"
    and dk: "distinct (map k xs)" and df: "distinct (map f xs)"
    by simp_all
  show ?case
  proof (cases "k x = i")
    case True
    with kx have "\<forall>y \<in> set xs. k y \<noteq> i" by (metis imageI)
    then have same: "map g xs = xs" and all: "filter (\<lambda>x. k x \<noteq> i) xs = xs"
      by (simp_all add: g_def map_idI)
    from Cons.prems(4) True all have "f v \<notin> f ` set xs" by simp
    with True same df have "distinct (map f (map g (x # xs)))" by (simp add: g_def)
    then show ?thesis by (simp only: g_def)
  next
    case False
    with Cons.prems(4) have fv: "f v \<noteq> f x" and rest: "f v \<notin> set (map f (filter (\<lambda>x. k x \<noteq> i) xs))"
      by auto
    have "\<forall>y \<in> set xs. f (g y) \<noteq> f x"
    proof
      fix y assume y: "y \<in> set xs"
      show "f (g y) \<noteq> f x"
      proof (cases "k y = i")
        case True
        with fv show ?thesis by (simp add: g_def)
      next
        case False
        from y fx have "f y \<noteq> f x" by (metis imageI)
        with False show ?thesis by (simp add: g_def)
      qed
    qed
    then have "f x \<notin> set (map f (map g xs))" by auto
    moreover have "distinct (map f (map g xs))"
      unfolding g_def by (rule Cons.IH[OF dk df Cons.prems(3) rest])
    moreover have "g x = x" using False by (simp add: g_def)
    ultimately have "distinct (map f (map g (x # xs)))" by simp
    then show ?thesis by (simp only: g_def)
  qed
qed

lemma map_key_replace: "k v = i \<Longrightarrow> map k (map (\<lambda>x. if k x = i then v else x) xs) = map k xs"
  by (induction xs) auto

lemma users_value_id: "users_value r = Inr v \<Longrightarrow> users_id v = users_id r"
  unfolding users_value_def Let_def by (auto split: if_splits)

lemma users_value_email: "users_value r = Inr v \<Longrightarrow> users_email v = varchar 255 (users_email r)"
  unfolding users_value_def Let_def by (auto split: if_splits)

lemma users_same_execute:
  assumes "execute d s = Inr d'"
  shows "(\<exists>r. s = InsertUsers r) \<or> (\<exists>i r. s = UpdateUsers i r) \<or> (\<exists>i. s = DeleteUsers i) \<or>
         users d' = users d"
proof (cases s)
  case (InsertProjects r)
  with assms(1) show ?thesis by (auto simp: insert_projects_def split: sum.splits if_splits)
next
  case (InsertTasks r)
  with assms(1) show ?thesis by (auto simp: insert_tasks_def split: sum.splits if_splits)
next
  case (InsertTimeEntries r)
  with assms(1) show ?thesis by (auto simp: insert_time_entries_def split: sum.splits if_splits)
next
  case (InsertTimerSessions r)
  with assms(1) show ?thesis by (auto simp: insert_timer_sessions_def split: sum.splits if_splits)
next
  case (InsertTimesheets r)
  with assms(1) show ?thesis by (auto simp: insert_timesheets_def split: sum.splits if_splits)
next
  case (InsertNotifications r)
  with assms(1) show ?thesis by (auto simp: insert_notifications_def split: sum.splits if_splits)
next
  case (UpdateProjects i r)
  with assms(1) show ?thesis by (auto simp: update_projects_def split: sum.splits if_splits)
next
  case (UpdateTasks i r)
  with assms(1) show ?thesis by (auto simp: update_tasks_def split: sum.splits if_splits)
next
  case (UpdateTimeEntries i r)
  with assms(1) show ?thesis by (auto simp: update_time_entries_def split: sum.splits if_splits)
next
  case (UpdateTimerSessions i r)
  with assms(1) show ?thesis by (auto simp: update_timer_sessions_def split: sum.splits if_splits)
next
  case (UpdateTimesheets i r)
  with assms(1) show ?thesis by (auto simp: update_timesheets_def split: sum.splits if_splits)
next
  case (UpdateNotifications i r)
  with assms(1) show ?thesis by (auto simp: update_notifications_def split: sum.splits if_splits)
next
  case (DeleteProjects i)
  with assms(1) show ?thesis by (auto simp: delete_projects_def Let_def split: if_splits)
next
  case (DeleteTasks i)
  with assms(1) show ?thesis by (auto simp: delete_tasks_def split: if_splits)
next
  case (DeleteTimeEntries i)
  with assms(1) show ?thesis by (auto simp: delete_time_entries_def)
next
  case (DeleteTimerSessions i)
  with assms(1) show ?thesis by (auto simp: delete_timer_sessions_def)
next
  case (DeleteTimesheets i)
  with assms(1) show ?thesis by (auto simp: delete_timesheets_def split: if_splits)
next
  case (DeleteNotifications i)
  with assms(1) show ?thesis by (auto simp: delete_notifications_def)
qed simp_all

lemma users_keys_insert:
  assumes "users_keyed d \<and> emails_unique d" and "insert_users d r = Inr d'"
  shows "users_keyed d' \<and> emails_unique d'"
proof -
  from assms(2) obtain v where v: "users_value r = Inr v"
    and id: "users_id v \<notin> set (map users_id (users d))"
    and email: "users_email v \<notin> set (map users_email (users d))"
    and d': "users d' = users d @ [v]"
    unfolding insert_users_def has_users_def
    by (cases "users_value r") (auto split: if_splits)
  with assms(1) show ?thesis
    unfolding users_keyed_def emails_unique_def by simp
qed

lemma users_keys_update:
  assumes "users_keyed d \<and> emails_unique d" and "update_users d i r = Inr d'"
  shows "users_keyed d' \<and> emails_unique d'"
proof (cases "has_users d i")
  case False
  with assms show ?thesis by (simp add: update_users_def)
next
  case True
  with assms obtain v where v: "users_value (r\<lparr>users_id := i\<rparr>) = Inr v"
    and fresh: "users_email v \<notin> set (map users_email (filter (\<lambda>x. users_id x \<noteq> i) (users d)))"
    and d': "d' = d\<lparr>users := map (\<lambda>x. if users_id x = i then v else x) (users d)\<rparr>"
    by (auto simp: update_users_def split: sum.splits if_splits)
  from users_value_id[OF v] have vi: "users_id v = i" by simp
  from assms(1) have ids: "distinct (map users_id (users d))"
    and emails: "distinct (map users_email (users d))"
    by (simp_all add: users_keyed_def emails_unique_def)
  have ud': "users d' = map (\<lambda>x. if users_id x = i then v else x) (users d)"
    by (simp add: d')
  have "distinct (map users_id (users d'))"
    unfolding ud' map_key_replace[of users_id v i, OF vi] by (rule ids)
  moreover have "distinct (map users_email (users d'))"
    unfolding ud' by (rule distinct_map_replace[OF ids emails vi fresh])
  ultimately show ?thesis by (simp add: users_keyed_def emails_unique_def)
qed

lemma users_keys_delete:
  assumes "users_keyed d \<and> emails_unique d" and "delete_users d i = Inr d'"
  shows "users_keyed d' \<and> emails_unique d'"
proof (cases "has_users d i")
  case False
  with assms delete_users_absent[of d i] show ?thesis by simp
next
  case True
  from delete_users_result[OF True assms(2)]
  have "users d' = filter (\<lambda>x. users_id x \<noteq> i) (users d)" by simp
  with assms(1) show ?thesis
    unfolding users_keyed_def emails_unique_def by (simp add: distinct_map_filter)
qed

lemma users_keys_execute:
  assumes "users_keyed d \<and> emails_unique d" and "execute d s = Inr d'"
  shows "users_keyed d' \<and> emails_unique d'"
proof -
  from users_same_execute[OF assms(2)]
  consider (ins) r where "s = InsertUsers r" | (upd) i r where "s = UpdateUsers i r"
    | (del) i where "s = DeleteUsers i" | (other) "users d' = users d"
    by blast
  then show ?thesis
  proof cases
    case ins
    with assms(2) have "insert_users d r = Inr d'" by simp
    then show ?thesis by (rule users_keys_insert[OF assms(1)])
  next
    case upd
    with assms(2) have "update_users d i r = Inr d'" by simp
    then show ?thesis by (rule users_keys_update[OF assms(1)])
  next
    case del
    with assms(2) have "delete_users d i = Inr d'" by simp
    then show ?thesis by (rule users_keys_delete[OF assms(1)])
  next
    case other
    with assms(1) show ?thesis by (simp add: users_keyed_def emails_unique_def)
  qed
qed

lemma users_keys_attempt:
  assumes "users_keyed d \<and> emails_unique d"
  shows "users_keyed (attempt d s) \<and> emails_unique (attempt d s)"
proof (cases "execute d s")
  case (Inl e)
  with assms show ?thesis by (simp add: attempt_def)
next
  case (Inr d')
  then have "attempt d s = d'" by (simp add: attempt_def)
  with users_keys_execute[OF assms Inr] show ?thesis by simp
qed

lemma users_keys_foldl:
  "users_keyed d \<and> emails_unique d \<Longrightarrow>
     users_keyed (foldl attempt d ss) \<and> emails_unique (foldl attempt d ss)"
proof (induction ss arbitrary: d)
  case Nil
  then show ?case by simp
next
  case (Cons s ss)
  from Cons.IH[OF users_keys_attempt[OF Cons.prems]] show ?case by simp
qed

lemma insert_users_duplicate_email:
  assumes "varchar 255 (users_email r) \<in> set (map users_email (users d))"
  shows "\<exists>e. insert_users d r = Inl e"
proof (cases "users_value r")
  case (Inl e)
  then show ?thesis by (simp add: insert_users_def)
next
  case (Inr v)
  with assms users_value_email[OF Inr] show ?thesis by (simp add: insert_users_def)
qed

text \<open>
  Claim C9. Whatever statements are run on the store the schema creates, no two user
  rows have the same email; and an insert of a user whose email (as the column stores
  it) is already stored fails.
\<close>

theorem users_email_unique:
  "emails_unique (run empty_db ss) \<and>
   (varchar 255 (users_email r) \<in> set (map users_email (users d)) \<longrightarrow>
      (\<exists>e. insert_users d r = Inl e))"
proof -
  have "users_keyed empty_db \<and> emails_unique empty_db"
    by (simp add: users_keyed_def emails_unique_def empty_db_def)
  from users_keys_foldl[OF this] show ?thesis
    using insert_users_duplicate_email by (simp add: run_def)
qed

text \<open>A third user with the seeded admin's email is refused.\<close>

theorem users_email_unique_witness:
  "emails_unique (run empty_db [InsertUsers (default_admin 1 0),
                                InsertUsers (default_employee 2 0),
                                InsertUsers (default_admin 3 0)]) \<and>
   map users_id (users (run empty_db [InsertUsers (default_admin 1 0),
                                      InsertUsers (default_employee 2 0),
                                      InsertUsers (default_admin 3 0)])) = [1, 2] \<and>
   varchar 255 (users_email (default_admin 3 0)) \<in> set (map users_email (users (schema_db 1 2 0))) \<and>
   insert_users (schema_db 1 2 0) (default_admin 3 0) = Inl UniqueViolation"
proof -
  have m: "varchar 255 (users_email (default_admin 3 0)) \<in>
      set (map users_email (users (schema_db 1 2 0)))"
    by (simp add: store_eval)
  have i: "insert_users (schema_db 1 2 0) (default_admin 3 0) = Inl UniqueViolation"
    by (simp add: store_eval)
  have u: "map users_id (users (run empty_db [InsertUsers (default_admin 1 0),
                                      InsertUsers (default_employee 2 0),
                                      InsertUsers (default_admin 3 0)])) = [1, 2]"
    by (simp add: store_eval)
  from users_email_unique[of "[InsertUsers (default_admin 1 0),
                                InsertUsers (default_employee 2 0),
                                InsertUsers (default_admin 3 0)]"
      "default_admin 3 0" "schema_db 1 2 0"] m i u
  show ?thesis by simp
qed

subsection \<open>Submitting the login form\<close>

lemma begin_calls:
  "filter is_login (snd (handleSubmit_begin st)) = [Login (email st) (password st)]"
  by (simp add: handleSubmit_begin_def)

lemma begin_no_navigate: "Navigate url \<notin> set (snd (handleSubmit_begin st))"
  by (simp add: handleSubmit_begin_def)

lemma resume_no_login: "filter is_login (fst (snd (handleSubmit_resume st r))) = []"
  by (simp add: handleSubmit_resume_def split: settled.splits sum.splits)

lemma to_boolean_falsy:
  "to_boolean v = (v \<notin> {JUndefined, JNull, JBool False, JNum 0, JNaN, JStr []})"
  by (cases v) auto

lemma get_property_success:
  "(get_property result name = Inr v \<and> to_boolean v) =
   (\<exists>kvs. result = JObj kvs \<and> map_of kvs name = Some v \<and> to_boolean v)"
  by (cases result) (auto split: option.splits)

lemma resume_navigate:
  "(Navigate url \<in> set (fst (snd (handleSubmit_resume st r)))) =
   (url = ''/dashboard'' \<and>
    (\<exists>kvs v. r = Fulfilled (JObj kvs) \<and> map_of kvs ''success'' = Some v \<and>
       v \<notin> {JUndefined, JNull, JBool False, JNum 0, JNaN, JStr []}))"
proof (cases r)
  case (Rejected e)
  then show ?thesis by (simp add: handleSubmit_resume_def)
next
  case (Fulfilled result)
  show ?thesis
  proof (cases "get_property result ''success''")
    case (Inl t)
    then have "\<not> (\<exists>kvs v. result = JObj kvs \<and> map_of kvs ''success'' = Some v)"
      by (cases result) (auto split: option.splits)
    with Inl Fulfilled show ?thesis by (auto simp: handleSubmit_resume_def)
  next
    case (Inr v)
    have "(\<exists>kvs w. result = JObj kvs \<and> map_of kvs ''success'' = Some w \<and>
             w \<notin> {JUndefined, JNull, JBool False, JNum 0, JNaN, JStr []}) = to_boolean v"
    proof (cases "to_boolean v")
      case True
      with Inr get_property_success[of result "''success''" v]
      obtain kvs where "result = JObj kvs" "map_of kvs ''success'' = Some v" by auto
      with True show ?thesis using to_boolean_falsy[of v] by auto
    next
      case False
      have "\<not> (\<exists>kvs w. result = JObj kvs \<and> map_of kvs ''success'' = Some w \<and>
             w \<notin> {JUndefined, JNull, JBool False, JNum 0, JNaN, JStr []})"
      proof
        assume "\<exists>kvs w. result = JObj kvs \<and> map_of kvs ''success'' = Some w \<and>
             w \<notin> {JUndefined, JNull, JBool False, JNum 0, JNaN, JStr []}"
        then obtain kvs w where k: "result = JObj kvs" "map_of kvs ''success'' = Some w"
          and w: "w \<notin> {JUndefined, JNull, JBool False, JNum 0, JNaN, JStr []}" by blast
        from k Inr have "w = v" by simp
        with w False to_boolean_falsy[of v] show False by simp
      qed
      with False show ?thesis by simp
    qed
    with Inr Fulfilled show ?thesis by (auto simp: handleSubmit_resume_def)
  qed
qed

lemma on_submit_calls:
  "calls (on_submit p) = calls p @ [PreventDefault, SetLoading True, Login (email p) (password p)]"
  by (simp add: on_submit_def handleSubmit_begin_def login_page.truncate_def)

lemma on_submit_state: "loading (on_submit p) \<and> pending (on_submit p) = pending p + 1"
  by (simp add: on_submit_def handleSubmit_begin_def login_page.truncate_def)

lemma step_in_flight_ok:
  assumes "in_flight_ok p" and "user_event e" and "step p e = Some p'"
  shows "in_flight_ok p'"
proof (cases e)
  case (ChangeEmail s)
  with assms show ?thesis by (auto simp: in_flight_ok_def submit_disabled_def)
next
  case (ChangePassword s)
  with assms show ?thesis by (auto simp: in_flight_ok_def submit_disabled_def)
next
  case ClickSubmit
  show ?thesis
  proof (cases "submit_disabled p \<or> \<not> fields_valid p")
    case True
    with ClickSubmit assms show ?thesis by simp
  next
    case False
    with ClickSubmit assms(3) have p': "p' = on_submit p" by simp
    from False assms(1) have "pending p = 0"
      by (auto simp: in_flight_ok_def)
    with on_submit_state[of p] show ?thesis
      by (simp add: p' in_flight_ok_def submit_disabled_def)
  qed
next
  case DispatchSubmit
  with assms(2) show ?thesis by simp
next
  case (LoginSettles r)
  with assms show ?thesis
    by (auto simp: in_flight_ok_def submit_disabled_def split: if_splits prod.splits)
qed

lemma steps_in_flight_ok:
  "in_flight_ok p \<Longrightarrow> list_all user_event es \<Longrightarrow> steps p es = Some p' \<Longrightarrow> in_flight_ok p'"
proof (induction es arbitrary: p)
  case Nil
  then show ?case by simp
next
  case (Cons e es)
  from Cons.prems(3) obtain p1 where s: "step p e = Some p1" and r: "steps p1 es = Some p'"
    by (cases "step p e") auto
  from Cons.prems(2) have e: "user_event e" and es: "list_all user_event es" by simp_all
  from Cons.IH[OF step_in_flight_ok[OF Cons.prems(1) e s] es r] show ?case .
qed

lemma initial_in_flight_ok: "in_flight_ok initial_page"
  by (simp add: in_flight_ok_def initial_page_def)

text \<open>
  The handler does not compare \<open>success\<close> with \<open>true\<close>, and it has no test of \<open>loading\<close>.
  A result whose \<open>success\<close> is the string \<open>false\<close> navigates to the dashboard. And a
  submit event that reaches the form while a \<open>login\<close> is pending, the button disabled,
  runs the handler again: two calls of \<open>login\<close> are pending; when the first of them
  settles, \<open>loading\<close> is reset and the button is enabled while the second is still
  pending.
\<close>

theorem login_navigates_on_truthy_and_resubmits:
  "JStr ''false'' \<noteq> JBool True \<and>
   Navigate ''/dashboard'' \<in> set (fst (snd (handleSubmit_resume
      \<lparr>email = ''a@b.c'', password = ''pw'', loading = True\<rparr>
      (Fulfilled (JObj [(''success'', JStr ''false'')]))))) \<and>
   map_option (\<lambda>p. (pending p, submit_disabled p, filter is_login (calls p)))
     (steps initial_page
        [ChangeEmail ''a@b.c'', ChangePassword ''pw'', ClickSubmit, DispatchSubmit]) =
     Some (2, True, [Login ''a@b.c'' ''pw'', Login ''a@b.c'' ''pw'']) \<and>
   map_option (\<lambda>p. (pending p, submit_disabled p))
     (steps initial_page
        [ChangeEmail ''a@b.c'', ChangePassword ''pw'', ClickSubmit, DispatchSubmit,
         LoginSettles (Fulfilled (JObj [(''success'', JBool False)]))]) =
     Some (1, False)"
  by (simp add: handleSubmit_resume_def initial_page_def submit_disabled_def fields_valid_def
      valid_email_def valid_label_def alnum_def atext_def on_submit_def handleSubmit_begin_def
      login_page.truncate_def)

text \<open>
  Claim C10, as amended. Every run of \<open>handleSubmit\<close> calls \<open>login\<close> exactly once, before
  its \<open>await\<close>, with the email and password of the page's state, and never when it
  resumes; a submit event appends these calls and no others to the log. The handler
  navigates only when it resumes, only to \<open>/dashboard\<close>, and it does so if and only if
  \<open>login\<close> has fulfilled with an object that has a \<open>success\<close> property whose value is
  truthy: any value other than \<open>undefined\<close>, \<open>null\<close>, \<open>false\<close>, \<open>0\<close>, \<open>NaN\<close> and the
  empty string. And as long as every submission comes through the submit button, at
  most one \<open>login\<close> is pending, and while one is the button is disabled and a
  submission through it changes nothing.
\<close>

theorem login_form_submission:
  "filter is_login (snd (handleSubmit_begin st)) = [Login (email st) (password st)] \<and>
   filter is_login (fst (snd (handleSubmit_resume st r))) = [] \<and>
   calls (on_submit q) =
     calls q @ [PreventDefault, SetLoading True, Login (email q) (password q)] \<and>
   Navigate url \<notin> set (snd (handleSubmit_begin st)) \<and>
   (Navigate url \<in> set (fst (snd (handleSubmit_resume st r))) \<longleftrightarrow>
      url = ''/dashboard'' \<and>
      (\<exists>kvs v. r = Fulfilled (JObj kvs) \<and> map_of kvs ''success'' = Some v \<and>
         v \<notin> {JUndefined, JNull, JBool False, JNum 0, JNaN, JStr []})) \<and>
   (list_all user_event es \<and> steps initial_page es = Some p \<longrightarrow>
      pending p \<le> 1 \<and>
      (pending p = 1 \<longrightarrow> submit_disabled p \<and> step p ClickSubmit = Some p))"
proof -
  have "list_all user_event es \<and> steps initial_page es = Some p \<longrightarrow>
      pending p \<le> 1 \<and> (pending p = 1 \<longrightarrow> submit_disabled p \<and> step p ClickSubmit = Some p)"
  proof
    assume a: "list_all user_event es \<and> steps initial_page es = Some p"
    then have "in_flight_ok p"
      using steps_in_flight_ok[OF initial_in_flight_ok] by blast
    then show "pending p \<le> 1 \<and> (pending p = 1 \<longrightarrow> submit_disabled p \<and> step p ClickSubmit = Some p)"
      by (simp add: in_flight_ok_def)
  qed
  with begin_calls[of st] resume_no_login[of st r] on_submit_calls[of q]
    begin_no_navigate[of url st] resume_navigate[of url st r]
  show ?thesis by blast
qed

text \<open>
  A user types an email and a password and submits twice through the button: one
  \<open>login\<close> is called and is pending, and the button is disabled. A result with
  \<open>success: true\<close> navigates to the dashboard, one with \<open>success: false\<close> does not.
\<close>

theorem login_form_submission_witness:
  "list_all user_event [ChangeEmail ''a@b.c'', ChangePassword ''pw'', ClickSubmit, ClickSubmit] \<and>
   steps initial_page [ChangeEmail ''a@b.c'', ChangePassword ''pw'', ClickSubmit, ClickSubmit] =
     Some \<lparr>email = ''a@b.c'', password = ''pw'', loading = True, pending = 1,
           calls = [PreventDefault, SetLoading True, Login ''a@b.c'' ''pw'']\<rparr> \<and>
   submit_disabled \<lparr>email = ''a@b.c'', password = ''pw'', loading = True, pending = 1,
           calls = [PreventDefault, SetLoading True, Login ''a@b.c'' ''pw'']\<rparr> \<and>
   Navigate ''/dashboard'' \<in> set (fst (snd (handleSubmit_resume
      \<lparr>email = ''a@b.c'', password = ''pw'', loading = True\<rparr>
      (Fulfilled (JObj [(''success'', JBool True)]))))) \<and>
   Navigate ''/dashboard'' \<notin> set (fst (snd (handleSubmit_resume
      \<lparr>email = ''a@b.c'', password = ''pw'', loading = True\<rparr>
      (Fulfilled (JObj [(''success'', JBool False), (''error'', JStr ''Invalid'')])))))"
proof -
  have u: "list_all user_event [ChangeEmail ''a@b.c'', ChangePassword ''pw'', ClickSubmit, ClickSubmit]"
    by simp
  have s: "steps initial_page [ChangeEmail ''a@b.c'', ChangePassword ''pw'', ClickSubmit, ClickSubmit] =
     Some \<lparr>email = ''a@b.c'', password = ''pw'', loading = True, pending = 1,
           calls = [PreventDefault, SetLoading True, Login ''a@b.c'' ''pw'']\<rparr>"
    by (simp add: initial_page_def submit_disabled_def fields_valid_def valid_email_def
        valid_label_def alnum_def atext_def on_submit_def handleSubmit_begin_def
        login_page.truncate_def)
  from login_form_submission[where st = "\<lparr>email = ''a@b.c'', password = ''pw'', loading = True\<rparr>"
      and r = "Fulfilled (JObj [(''success'', JBool True)])" and url = "''/dashboard''"
      and es = "[ChangeEmail ''a@b.c'', ChangePassword ''pw'', ClickSubmit, ClickSubmit]"
      and p = "\<lparr>email = ''a@b.c'', password = ''pw'', loading = True, pending = 1,
           calls = [PreventDefault, SetLoading True, Login ''a@b.c'' ''pw'']\<rparr>"]
    login_form_submission[where st = "\<lparr>email = ''a@b.c'', password = ''pw'', loading = True\<rparr>"
      and r = "Fulfilled (JObj [(''success'', JBool False), (''error'', JStr ''Invalid'')])"
      and url = "''/dashboard''"]
    u s
  show ?thesis by simp
qed

end
